theory Spec2Isabelle
  imports Complex_Main "HOL-Library.Product_Lexorder"
begin

section \<open>Fiducial and pinhole identification (desimeter, findfiducials.py)\<close>

text \<open>
  The module works on numpy arrays of double precision numbers. The model computes over
  the real numbers: a finite array entry is a real, rounding is not modelled. What numpy
  does where the real result does not exist is written out: a division by zero gives an
  infinity or a not-a-number, which then propagates through the arithmetic and makes every
  comparison false.
\<close>

subsection \<open>Array entries: reals, infinities, not-a-number\<close>

datatype fl = Fin real | PInf | NInf | NaN

text \<open>\<open>a / b\<close> on two finite entries.\<close>

definition fdiv :: "real \<Rightarrow> real \<Rightarrow> fl" where
  "fdiv a b = (if b \<noteq> 0 then Fin (a / b)
               else if a > 0 then PInf else if a < 0 then NInf else NaN)"

fun fsqrt :: "fl \<Rightarrow> fl" where
  "fsqrt (Fin a) = (if a < 0 then NaN else Fin (sqrt a))"
| "fsqrt PInf = PInf"
| "fsqrt NInf = NaN"
| "fsqrt NaN = NaN"

fun fneg :: "fl \<Rightarrow> fl" where
  "fneg (Fin a) = Fin (- a)"
| "fneg PInf = NInf"
| "fneg NInf = PInf"
| "fneg NaN = NaN"

fun fadd :: "fl \<Rightarrow> fl \<Rightarrow> fl" where
  "fadd (Fin a) (Fin b) = Fin (a + b)"
| "fadd NaN _ = NaN"
| "fadd _ NaN = NaN"
| "fadd PInf NInf = NaN"
| "fadd NInf PInf = NaN"
| "fadd PInf _ = PInf"
| "fadd _ PInf = PInf"
| "fadd NInf _ = NInf"
| "fadd _ NInf = NInf"

definition fsub :: "fl \<Rightarrow> fl \<Rightarrow> fl" where
  "fsub a b = fadd a (fneg b)"

text \<open>The sign of an entry: \<open>Some True\<close> positive, \<open>Some False\<close> negative, \<open>None\<close> zero
  or not-a-number.\<close>

fun fsign :: "fl \<Rightarrow> bool option" where
  "fsign (Fin a) = (if a > 0 then Some True else if a < 0 then Some False else None)"
| "fsign PInf = Some True"
| "fsign NInf = Some False"
| "fsign NaN = None"

fun fmul :: "fl \<Rightarrow> fl \<Rightarrow> fl" where
  "fmul (Fin a) (Fin b) = Fin (a * b)"
| "fmul NaN _ = NaN"
| "fmul _ NaN = NaN"
| "fmul a b = (case (fsign a, fsign b) of
                 (Some s, Some t) \<Rightarrow> (if s = t then PInf else NInf)
               | _ \<Rightarrow> NaN)"

text \<open>\<open>a ** 2\<close> and \<open>np.abs\<close>.\<close>

definition fsq :: "fl \<Rightarrow> fl" where
  "fsq a = fmul a a"

fun fabs :: "fl \<Rightarrow> fl" where
  "fabs (Fin a) = Fin \<bar>a\<bar>"
| "fabs PInf = PInf"
| "fabs NInf = PInf"
| "fabs NaN = NaN"

text \<open>The comparison \<open>a < b\<close>: false as soon as one side is not-a-number.\<close>

fun flt :: "fl \<Rightarrow> fl \<Rightarrow> bool" where
  "flt (Fin a) (Fin b) = (a < b)"
| "flt NaN _ = False"
| "flt _ NaN = False"
| "flt PInf _ = False"
| "flt NInf NInf = False"
| "flt NInf _ = True"
| "flt _ PInf = True"
| "flt _ NInf = False"

definition fgt :: "fl \<Rightarrow> fl \<Rightarrow> bool" where
  "fgt a b = flt b a"

text \<open>\<open>a <= b\<close> and \<open>a >= b\<close>, used to state the ranges of the triangle features.\<close>

definition fle :: "fl \<Rightarrow> fl \<Rightarrow> bool" where
  "fle a b = (a \<noteq> NaN \<and> b \<noteq> NaN \<and> (flt a b \<or> a = b))"

definition fge :: "fl \<Rightarrow> fl \<Rightarrow> bool" where
  "fge a b = fle b a"

text \<open>
  The order numpy sorts by: minus infinity, the finite numbers, plus infinity, and
  not-a-number last.
\<close>

fun sortkey :: "fl \<Rightarrow> nat \<times> real" where
  "sortkey NInf = (0, 0)"
| "sortkey (Fin a) = (1, a)"
| "sortkey PInf = (2, 0)"
| "sortkey NaN = (3, 0)"

text \<open>
  \<open>np.argsort\<close>: the indices in ascending order of their entries. The arrays sorted here
  have 3 entries (the sides of a triangle) or one entry per triangle of a cluster of at most
  4 spots; on arrays this short numpy's default sort is an insertion sort, which keeps equal
  entries in index order, so the model is the stable sort.
\<close>

definition argsort :: "real list \<Rightarrow> nat list" where
  "argsort xs = sort_key (\<lambda>i. xs ! i) [0..<length xs]"

definition argsort_fl :: "fl list \<Rightarrow> nat list" where
  "argsort_fl xs = sort_key (\<lambda>i. sortkey (xs ! i)) [0..<length xs]"

subsection \<open>compute\_triangles\<close>

type_synonym pt = "real \<times> real"

text \<open>The loop nest \<open>for i in range(nn): for j in range(i+1,nn): for k in range(j+1,nn)\<close>.\<close>

definition triples :: "nat \<Rightarrow> (nat \<times> nat \<times> nat) list" where
  "triples nn = concat (map (\<lambda>i. concat (map (\<lambda>j. map (\<lambda>k. (i, j, k)) [j + 1..<nn])
                                              [i + 1..<nn])) [0..<nn])"

definition pairs :: "nat list list" where
  "pairs = [[0, 1], [1, 2], [0, 2]]"

text \<open>\<open>np.intersect1d\<close>: the sorted common entries, each once.\<close>

definition intersect1d :: "nat list \<Rightarrow> nat list \<Rightarrow> nat list" where
  "intersect1d a b = sort (remdups (filter (\<lambda>v. v \<in> set b) a))"

text \<open>
  The canonical vertex order from the argsort \<open>ii\<close> of the squared side lengths. Two different
  rows of \<open>pairs\<close> share exactly one vertex (lemma \<open>ordering_of_perm\<close> below), which is
  the entry the source stores.
\<close>

definition ordering_of :: "nat list \<Rightarrow> nat list" where
  "ordering_of ii =
     [hd (intersect1d (pairs ! (ii ! 0)) (pairs ! (ii ! 2))),
      hd (intersect1d (pairs ! (ii ! 0)) (pairs ! (ii ! 1))),
      hd (intersect1d (pairs ! (ii ! 1)) (pairs ! (ii ! 2)))]"

definition sqdist :: "pt \<Rightarrow> pt \<Rightarrow> real" where
  "sqdist p q = (fst q - fst p)\<^sup>2 + (snd q - snd p)\<^sup>2"

text \<open>The squared side lengths \<open>tl2\<close> of the triangle on the points \<open>t0, t1, t2\<close>.\<close>

definition tl2_of :: "pt \<Rightarrow> pt \<Rightarrow> pt \<Rightarrow> real list" where
  "tl2_of t0 t1 t2 = [sqdist t0 t1, sqdist t1 t2, sqdist t2 t0]"

text \<open>The cosine at the first vertex of the reordered triangle.\<close>

definition vertex_cos :: "pt \<Rightarrow> pt \<Rightarrow> pt \<Rightarrow> fl" where
  "vertex_cos v0 v1 v2 =
     fdiv ((fst v1 - fst v0) * (fst v2 - fst v0) + (snd v1 - snd v0) * (snd v2 - snd v0))
          (sqrt (((fst v1 - fst v0)\<^sup>2 + (snd v1 - snd v0)\<^sup>2)
                 * ((fst v2 - fst v0)\<^sup>2 + (snd v2 - snd v0)\<^sup>2)))"

text \<open>
  One pass of the loop body: the vertex indices in canonical order, the ratio \<open>r\<close> of the
  longest to the shortest side, and the cosine \<open>c\<close>.
\<close>

definition triangle :: "pt list \<Rightarrow> nat \<times> nat \<times> nat \<Rightarrow> nat list \<times> fl \<times> fl" where
  "triangle xy t =
     (case t of (i, j, k) \<Rightarrow>
        let ijk = [i, j, k];
            txy = map (\<lambda>v. xy ! v) ijk;
            tl2 = tl2_of (txy ! 0) (txy ! 1) (txy ! 2);
            ii = argsort tl2;
            ordering = ordering_of ii;
            ijk' = map (\<lambda>v. ijk ! v) ordering;
            txy' = map (\<lambda>v. txy ! v) ordering;
            r = fsqrt (fdiv (tl2 ! (ii ! 2)) (tl2 ! (ii ! 0)));
            c = vertex_cos (txy' ! 0) (txy' ! 1) (txy' ! 2)
        in (ijk', r, c))"

text \<open>
  The source takes the coordinates as two arrays \<open>x\<close> and \<open>y\<close> of one length and returns
  the three arrays \<open>tk\<close>, \<open>tr\<close>, \<open>tc\<close>; the model takes the list of points.
\<close>

definition compute_triangles :: "pt list \<Rightarrow> nat list list \<times> fl list \<times> fl list" where
  "compute_triangles xy =
     (let ts = map (triangle xy) (triples (length xy))
      in (map fst ts, map (fst \<circ> snd) ts, map (snd \<circ> snd) ts))"


subsection \<open>Tables and module state\<close>

text \<open>
  The spot table: the pixel positions (the columns \<open>XPIX\<close> and \<open>YPIX\<close>, row by row) and
  the two identity columns, which the caller may have left out.
\<close>

record spots_t =
  XPIX_YPIX :: "pt list"
  LOCATION :: "int list option"
  PINHOLE_ID :: "int list option"

text \<open>A row of the metrology file, and a row of the pinhole table derived from it, which
  also has the pixel position.\<close>

record metrology_row =
  m_LOCATION :: int
  m_PINHOLE_ID :: int
  m_FP :: pt

record pinhole_row = metrology_row +
  m_PIX :: pt

text \<open>
  The state the function works on: the two module globals, the metrology file on disk
  (\<open>None\<close> when \<open>os.path.isfile\<close> is false; reading and parsing it is outside this module) and
  the caller's spot table, which is annotated in place.
\<close>

record state =
  metrology_pinholes_table :: "pinhole_row list option"
  metrology_fiducials_table :: "pinhole_row list option"
  metrology_filename :: string
  metrology_file :: "metrology_row list option"
  spots :: spots_t

datatype error = IOError string | IndexError | TypeError

subsection \<open>Loading the metrology\<close>

text \<open>
  \<open>input_tx\<close> is the transform \<open>FVCFP_Polynomial.read_jsonfile\<close> has returned; its code is
  not part of these sources. Modelled from the spec: \<open>fp2fvc\<close> is a function
  \<open>map(x_physical, y_physical) -> (x_pixel, y_pixel)\<close>, applied to each row.
\<close>

definition load_metrology :: "(pt \<Rightarrow> pt) \<Rightarrow> state \<Rightarrow> error + state" where
  "load_metrology fp2fvc s =
     (if metrology_pinholes_table s = None then
        (case metrology_file s of
           None \<Rightarrow> Inl (IOError (''cannot find '' @ metrology_filename s))
         | Some metrology_table \<Rightarrow>
             let pinholes = map (\<lambda>r. metrology_row.extend r (pinhole_row.fields (fp2fvc (m_FP r))))
                                (filter (\<lambda>r. m_PINHOLE_ID r > 0) metrology_table);
                 fiducials = filter (\<lambda>r. m_PINHOLE_ID r = 4) pinholes
             in Inr (s\<lparr>metrology_pinholes_table := Some pinholes,
                       metrology_fiducials_table := Some fiducials\<rparr>))
      else Inr s)"

subsection \<open>Nearest neighbours\<close>

definition distance :: "pt \<Rightarrow> pt \<Rightarrow> real" where
  "distance p q = sqrt (sqdist p q)"

text \<open>
  \<open>KDTree(data).query(x, k, distance_upper_bound)\<close> for one point \<open>x\<close>: the \<open>k\<close> nearest
  points of \<open>data\<close> that are closer than the bound, nearest first, as pairs of distance and
  index; missing neighbours have an infinite distance and the index \<open>len(data)\<close>. The tree
  is an index only and is modelled by the search over all points; neighbours at equal
  distance, whose order scipy leaves open, come in index order.
\<close>

definition kd_query :: "pt list \<Rightarrow> nat \<Rightarrow> fl \<Rightarrow> pt \<Rightarrow> (fl \<times> nat) list" where
  "kd_query data k bound x =
     (let near = filter (\<lambda>(d, i). flt (Fin d) bound)
                        (map (\<lambda>i. (distance x (data ! i), i)) [0..<length data]);
          found = take k (sort_key fst near)
      in map (\<lambda>(d, i). (Fin d, i)) found @ replicate (k - length found) (PInf, length data))"

text \<open>The query with \<open>k=1\<close> and no bound returns one distance and one index per point.\<close>

definition kd_query1 :: "pt list \<Rightarrow> pt \<Rightarrow> fl \<times> nat" where
  "kd_query1 data x = hd (kd_query data 1 PInf x)"

subsection \<open>Fiducial candidates\<close>

text \<open>\<open>tree.query(xy,k=4,distance_upper_bound=separation)\<close>: one row of 4 neighbours per spot.\<close>

definition measured_spots :: "real \<Rightarrow> pt list \<Rightarrow> (fl \<times> nat) list list" where
  "measured_spots separation xy = map (kd_query xy 4 (Fin separation)) xy"

definition number_of_neighbors :: "real \<Rightarrow> (fl \<times> nat) list \<Rightarrow> nat" where
  "number_of_neighbors separation row = length (filter (\<lambda>(d, i). flt d (Fin separation)) row)"

definition fiducials_candidates :: "real \<Rightarrow> pt list \<Rightarrow> nat list" where
  "fiducials_candidates separation xy =
     filter (\<lambda>i. number_of_neighbors separation (measured_spots separation xy ! i) \<ge> 3)
            [0..<length xy]"

subsection \<open>Matching candidates to the known fiducials\<close>

text \<open>\<open>np.median\<close> of a non-empty array.\<close>

definition median :: "real list \<Rightarrow> real" where
  "median xs = (let s = sort xs; n = length xs
                in if odd n then s ! (n div 2) else (s ! (n div 2 - 1) + s ! (n div 2)) / 2)"

text \<open>
  One pass of the loop that fits the offset and matches again. \<open>cand\<close> are the positions of
  the candidate spots, \<open>q\<close> the last query result. Reading the matched candidate of a fiducial
  fails when the query found none (there is no candidate at all). With no known fiducial
  every array is empty: numpy's median is then not-a-number, subtracted from nothing.
\<close>

definition rematch :: "pt list \<Rightarrow> pt list \<times> (fl \<times> nat) list
                        \<Rightarrow> error + (pt list \<times> (fl \<times> nat) list)" where
  "rematch cand mq =
     (case mq of (metrology_xy, q) \<Rightarrow>
        if list_ex (\<lambda>e. snd e \<ge> length cand) q then Inl IndexError
        else if metrology_xy = [] then Inr ([], [])
        else
          let dx = median (map (\<lambda>(m, e). fst m - fst (cand ! snd e)) (zip metrology_xy q));
              dy = median (map (\<lambda>(m, e). snd m - snd (cand ! snd e)) (zip metrology_xy q));
              metrology_xy' = map (\<lambda>m. (fst m - dx, snd m - dy)) metrology_xy
          in Inr (metrology_xy', map (kd_query1 cand) metrology_xy'))"

text \<open>
  The first query and the two passes; the result is the last query, one distance and one
  candidate number per known fiducial.
\<close>

definition match_fiducials :: "pt list \<Rightarrow> pt list \<Rightarrow> error + (fl \<times> nat) list" where
  "match_fiducials cand metrology_xy =
     (case rematch cand (metrology_xy, map (kd_query1 cand) metrology_xy) of
        Inl e \<Rightarrow> Inl e
      | Inr mq1 \<Rightarrow>
          (case rematch cand mq1 of
             Inl e \<Rightarrow> Inl e
           | Inr mq2 \<Rightarrow> Inr (snd mq2)))"

definition maxdistance :: real where
  "maxdistance = 10"

text \<open>\<open>np.where(distances<maxdistance)[0]\<close>.\<close>

definition selection_of :: "(fl \<times> nat) list \<Rightarrow> nat list" where
  "selection_of q = filter (\<lambda>j. flt (fst (q ! j)) (Fin maxdistance)) [0..<length q]"

text \<open>
  The pairs \<open>zip(fiducials_candidates_indices, matching_known_fiducials_indices)\<close>.
  \<open>fiducials_candidates_indices[indices]\<close> fails on a candidate number out of range.
\<close>

definition matched_pairs :: "nat list \<Rightarrow> (fl \<times> nat) list \<Rightarrow> error + (nat \<times> nat) list" where
  "matched_pairs candidates q =
     (if list_ex (\<lambda>e. snd e \<ge> length candidates) q then Inl IndexError
      else let selection = selection_of q
           in Inr (zip (map (\<lambda>j. candidates ! snd (q ! j)) selection) selection))"

subsection \<open>Pinhole assignment for one matched fiducial\<close>

text \<open>The unit vector along the first side of a triangle \<open>k\<close> (a column of \<open>tdu1\<close>, \<open>tdu2\<close>).\<close>

definition first_side :: "pt list \<Rightarrow> nat list \<Rightarrow> fl \<times> fl" where
  "first_side xy k =
     (let dx = fst (xy ! (k ! 1)) - fst (xy ! (k ! 0));
          dy = snd (xy ! (k ! 1)) - snd (xy ! (k ! 0));
          n = sqrt (dx\<^sup>2 + dy\<^sup>2)
      in (fdiv dx n, fdiv dy n))"

text \<open>An entry of \<open>cos12 = tdu1.T.dot(tdu2)\<close>.\<close>

definition cos12_of :: "fl \<times> fl \<Rightarrow> fl \<times> fl \<Rightarrow> fl" where
  "cos12_of u v = fadd (fmul (fst u) (fst v)) (fmul (snd u) (snd v))"

text \<open>An entry of \<open>dist2\<close>, from the features \<open>(r, c, first side)\<close> of the two triangles.\<close>

definition dist2_of :: "fl \<times> fl \<times> (fl \<times> fl) \<Rightarrow> fl \<times> fl \<times> (fl \<times> fl) \<Rightarrow> fl" where
  "dist2_of t1 t2 =
     (case (t1, t2) of ((r1, c1, u1), (r2, c2, u2)) \<Rightarrow>
        fadd (fadd (fsq (fsub r1 r2)) (fsq (fsub c1 c2)))
             (fsq (fsub (fabs (cos12_of u1 u2)) (Fin 1))))"

text \<open>
  \<open>np.argmin\<close> of a non-empty row: the first index of the least entry; a not-a-number
  counts as least, and the first one ends the search.
\<close>

definition argmin_fl :: "fl list \<Rightarrow> nat" where
  "argmin_fl xs =
     fold (\<lambda>i b. if xs ! b \<noteq> NaN \<and> (xs ! i = NaN \<or> flt (xs ! i) (xs ! b)) then i else b)
          [1..<length xs] 0"

text \<open>The features of all triangles of a point set, one triple per triangle.\<close>

definition features :: "pt list \<Rightarrow> (fl \<times> fl \<times> (fl \<times> fl)) list" where
  "features xy =
     (case compute_triangles xy of (tk, tr, tc) \<Rightarrow>
        map (\<lambda>t. (tr ! t, tc ! t, first_side xy (tk ! t))) [0..<length tk])"

text \<open>The matrix \<open>dist2\<close>: a row per measured triangle, a column per metrology triangle.\<close>

definition dist2_matrix :: "pt list \<Rightarrow> pt list \<Rightarrow> fl list list" where
  "dist2_matrix xy1 xy2 = map (\<lambda>t1. map (\<lambda>t2. dist2_of t1 t2) (features xy2)) (features xy1)"

text \<open>
  The body of the loop over \<open>ranked_pairs\<close> for an accepted triangle: \<open>k1\<close> and \<open>k2\<close> are the
  vertices of the measured and of the metrology triangle, \<open>st\<close> holds \<open>pinhole_ids\<close> and the
  two columns of the spot table.
\<close>

definition assign_triangle :: "nat list \<Rightarrow> int \<Rightarrow> int list \<Rightarrow> nat list \<Rightarrow> nat list
     \<Rightarrow> int list \<times> int list \<times> int list \<Rightarrow> int list \<times> int list \<times> int list" where
  "assign_triangle pi1 location metrology_pinhole_ids k1 k2 st =
     (case st of (pinhole_ids, loc, pid) \<Rightarrow>
        let pinhole_ids' = fold (\<lambda>(a, b) ids. ids[a := metrology_pinhole_ids ! b])
                                (zip k1 k2) pinhole_ids;
            loc' = fold (\<lambda>a col. col[pi1 ! a := location]) k1 loc;
            pid' = fold (\<lambda>a col. col[pi1 ! a := pinhole_ids' ! a]) k1 pid
        in (pinhole_ids', loc', pid'))"

text \<open>
  The loop \<open>for p in ranked_pairs\<close>, with its \<open>continue\<close> and its two \<open>break\<close>s. \<open>dist2\<close> is the
  array of the least distances and \<open>matched\<close> the array of their columns.
\<close>

fun assign_loop :: "nat list \<Rightarrow> int \<Rightarrow> int list \<Rightarrow> nat list list \<Rightarrow> fl list \<Rightarrow> nat list list
     \<Rightarrow> nat list \<Rightarrow> fl list \<Rightarrow> nat list
     \<Rightarrow> int list \<times> int list \<times> int list \<Rightarrow> int list \<times> int list \<times> int list" where
  "assign_loop pi1 location ids tk1 tc1 tk2 matched dist2 [] st = st"
| "assign_loop pi1 location ids tk1 tc1 tk2 matched dist2 (p # ps) st =
     (if fgt (tc1 ! p) (Fin 0.9) then assign_loop pi1 location ids tk1 tc1 tk2 matched dist2 ps st
      else if fgt (dist2 ! p) (Fin 0.001) then st
      else
        let st' = assign_triangle pi1 location ids (tk1 ! p) (tk2 ! (matched ! p)) st
        in if length (filter (\<lambda>v. v > 0) (fst st')) = length pi1 then st'
           else assign_loop pi1 location ids tk1 tc1 tk2 matched dist2 ps st')"

text \<open>
  The body of the loop over the matched pairs, for the measured spots \<open>pi1\<close> of the cluster
  and the fiducial at \<open>location\<close>. With fewer than 3 points on one side the list of triangles
  is an empty array of one dimension and \<open>tk[:,1]\<close> fails.
\<close>

definition assign_cluster :: "pt list \<Rightarrow> pinhole_row list \<Rightarrow> nat list \<Rightarrow> int
     \<Rightarrow> int list \<times> int list \<Rightarrow> error + (int list \<times> int list)" where
  "assign_cluster xy pinholes pi1 location cols =
     (let pi2 = filter (\<lambda>i. m_LOCATION (pinholes ! i) = location) [0..<length pinholes];
          xy1 = map (\<lambda>i. xy ! i) pi1;
          xy2 = map (\<lambda>i. m_PIX (pinholes ! i)) pi2;
          tk1 = fst (compute_triangles xy1);
          tc1 = snd (snd (compute_triangles xy1));
          tk2 = fst (compute_triangles xy2)
      in if tk1 = [] \<or> tk2 = [] then Inl IndexError
         else
           let d = dist2_matrix xy1 xy2;
               matched = map argmin_fl d;
               dist2 = map (\<lambda>row. row ! argmin_fl row) d;
               ranked_pairs = argsort_fl dist2;
               metrology_pinhole_ids = map (\<lambda>i. m_PINHOLE_ID (pinholes ! i)) pi2;
               pinhole_ids = replicate (length xy1) 0
           in Inr (snd (assign_loop pi1 location metrology_pinhole_ids tk1 tc1 tk2 matched
                          dist2 ranked_pairs (pinhole_ids, fst cols, snd cols))))"

text \<open>The measured spots of the cluster around the candidate \<open>index1\<close>.\<close>

definition cluster_spots :: "real \<Rightarrow> (fl \<times> nat) list \<Rightarrow> nat list" where
  "cluster_spots separation row = map snd (filter (\<lambda>(d, i). flt d (Fin separation)) row)"

text \<open>The loop over the matched pairs; an exception leaves the columns as they are then.\<close>

fun pairs_loop :: "real \<Rightarrow> pt list \<Rightarrow> pinhole_row list \<Rightarrow> pinhole_row list
     \<Rightarrow> (nat \<times> nat) list \<Rightarrow> int list \<times> int list \<Rightarrow> error option \<times> (int list \<times> int list)" where
  "pairs_loop separation xy pinholes fiducials [] cols = (None, cols)"
| "pairs_loop separation xy pinholes fiducials ((index1, index2) # ps) cols =
     (let location = m_LOCATION (fiducials ! index2);
          pi1 = cluster_spots separation (measured_spots separation xy ! index1)
      in case assign_cluster xy pinholes pi1 location cols of
           Inl e \<Rightarrow> (Some e, cols)
         | Inr cols' \<Rightarrow> pairs_loop separation xy pinholes fiducials ps cols')"

subsection \<open>findfiducials\<close>

definition default_separation :: real where
  "default_separation = 7"

text \<open>A missing identity column is added to the table, filled with zeros.\<close>

definition column_or_zeros :: "nat \<Rightarrow> int list option \<Rightarrow> int list" where
  "column_or_zeros nspots col = (case col of None \<Rightarrow> replicate nspots 0 | Some c \<Rightarrow> c)"

text \<open>
  The function returns the table it was given, annotated; the model returns the exception
  or the table, and the state after the call.
\<close>

definition findfiducials :: "(pt \<Rightarrow> pt) \<Rightarrow> real \<Rightarrow> state \<Rightarrow> (error + spots_t) \<times> state" where
  "findfiducials input_tx separation s0 =
     (case load_metrology input_tx s0 of
        Inl e \<Rightarrow> (Inl e, s0)
      | Inr s \<Rightarrow>
          (case (metrology_pinholes_table s, metrology_fiducials_table s) of
             (Some pinholes, Some fiducials) \<Rightarrow>
               let xy = XPIX_YPIX (spots s);
                   candidates = fiducials_candidates separation xy;
                   cand = map (\<lambda>i. xy ! i) candidates
               in (case match_fiducials cand (map m_PIX fiducials) of
                     Inl e \<Rightarrow> (Inl e, s)
                   | Inr q \<Rightarrow>
                       (case matched_pairs candidates q of
                          Inl e \<Rightarrow> (Inl e, s)
                        | Inr ps \<Rightarrow>
                            let nspots = length xy;
                                loc = column_or_zeros nspots (LOCATION (spots s));
                                pid = column_or_zeros nspots (PINHOLE_ID (spots s));
                                res = pairs_loop separation xy pinholes fiducials ps (loc, pid);
                                spots' = (spots s)\<lparr>LOCATION := Some (fst (snd res)),
                                                     PINHOLE_ID := Some (snd (snd res))\<rparr>;
                                s' = s\<lparr>spots := spots'\<rparr>
                            in (case fst res of
                                  Some e \<Rightarrow> (Inl e, s')
                                | None \<Rightarrow> (Inr spots', s'))))
           | _ \<Rightarrow> (Inl TypeError, s)))"

subsection \<open>Similarity transformations\<close>

text \<open>A rotation by \<open>\<theta>\<close>, a scaling by \<open>s\<close> and a translation by \<open>(a, b)\<close>.\<close>

definition similarity :: "real \<Rightarrow> real \<Rightarrow> real \<Rightarrow> real \<Rightarrow> pt \<Rightarrow> pt" where
  "similarity s \<theta> a b p =
     (s * (cos \<theta> * fst p - sin \<theta> * snd p) + a, s * (sin \<theta> * fst p + cos \<theta> * snd p) + b)"


section \<open>Concrete inputs\<close>

text \<open>A session in which nothing is cached and the metrology file is missing.\<close>

definition no_metrology_state :: state where
  "no_metrology_state =
     \<lparr>metrology_pinholes_table = None, metrology_fiducials_table = None,
      metrology_filename = ''data/fp-metrology.csv'', metrology_file = None,
      spots = \<lparr>XPIX_YPIX = [(100, 50), (101, 50), (100, 51), (101, 51)],
                LOCATION = None, PINHOLE_ID = None\<rparr>\<rparr>"

text \<open>One spot far from a cluster of four.\<close>

definition five_spots :: "pt list" where
  "five_spots = [(0, 0), (100, 50), (101, 50), (100, 51), (101, 51)]"

section \<open>Predicates used in the statements\<close>

text \<open>
  The module state is one the module itself produces: nothing is cached, or the cached
  pinhole table has only rows with a positive \<open>PINHOLE_ID\<close> and the cached fiducial table
  is its rows with \<open>PINHOLE_ID\<close> 4.
\<close>

definition cache_ok :: "state \<Rightarrow> bool" where
  "cache_ok s =
     (case metrology_pinholes_table s of
        None \<Rightarrow> True
      | Some pinholes \<Rightarrow>
          list_all (\<lambda>r. m_PINHOLE_ID r > 0) pinholes \<and>
          metrology_fiducials_table s = Some (filter (\<lambda>r. m_PINHOLE_ID r = 4) pinholes))"

text \<open>An identity column of a table of \<open>n\<close> spots is absent or all zero.\<close>

definition column_zero :: "nat \<Rightarrow> int list option \<Rightarrow> bool" where
  "column_zero n col = (col = None \<or> col = Some (replicate n 0))"

text \<open>
  The synthetic fiducial of the end-to-end example: pinholes at the corners of the unit
  square, the centre (id 4) at the origin, and a table of four spots in the same layout,
  shifted by (100, 50). The transform maps a physical position to itself.
\<close>

definition identity_transform :: "pt \<Rightarrow> pt" where
  "identity_transform p = p"

abbreviation square_spots :: "pt list" where
  "square_spots \<equiv> [(100, 50), (101, 50), (100, 51), (101, 51)]"

abbreviation unit_square :: "pt list" where
  "unit_square \<equiv> [(0, 0), (1, 0), (0, 1), (1, 1)]"

definition square_metrology :: "int \<Rightarrow> metrology_row list" where
  "square_metrology L =
     [\<lparr>m_LOCATION = L, m_PINHOLE_ID = 4, m_FP = (0, 0)\<rparr>,
      \<lparr>m_LOCATION = L, m_PINHOLE_ID = 1, m_FP = (1, 0)\<rparr>,
      \<lparr>m_LOCATION = L, m_PINHOLE_ID = 2, m_FP = (0, 1)\<rparr>,
      \<lparr>m_LOCATION = L, m_PINHOLE_ID = 3, m_FP = (1, 1)\<rparr>]"

definition square_state :: "int \<Rightarrow> state" where
  "square_state L =
     \<lparr>metrology_pinholes_table = None, metrology_fiducials_table = None,
      metrology_filename = ''data/fp-metrology.csv'',
      metrology_file = Some (square_metrology L),
      spots = \<lparr>XPIX_YPIX = square_spots, LOCATION = None, PINHOLE_ID = None\<rparr>\<rparr>"

abbreviation square_centre :: "int \<Rightarrow> pinhole_row" where
  "square_centre L \<equiv> \<lparr>m_LOCATION = L, m_PINHOLE_ID = 4, m_FP = (0, 0), m_PIX = (0, 0)\<rparr>"

abbreviation square_pinholes :: "int \<Rightarrow> pinhole_row list" where
  "square_pinholes L \<equiv>
     [square_centre L,
      \<lparr>m_LOCATION = L, m_PINHOLE_ID = 1, m_FP = (1, 0), m_PIX = (1, 0)\<rparr>,
      \<lparr>m_LOCATION = L, m_PINHOLE_ID = 2, m_FP = (0, 1), m_PIX = (0, 1)\<rparr>,
      \<lparr>m_LOCATION = L, m_PINHOLE_ID = 3, m_FP = (1, 1), m_PIX = (1, 1)\<rparr>]"

definition square_result :: "int \<Rightarrow> spots_t" where
  "square_result L = \<lparr>XPIX_YPIX = square_spots, LOCATION = Some [L, L, L, L],
                       PINHOLE_ID = Some [1, 4, 2, 2]\<rparr>"

definition square_after :: "int \<Rightarrow> state" where
  "square_after L =
     (square_state L)\<lparr>metrology_pinholes_table := Some (square_pinholes L),
                       metrology_fiducials_table := Some [square_centre L],
                       spots := square_result L\<rparr>"

text \<open>No two entries of a column of ids are the same nonzero id.\<close>

definition ids_injective :: "int list \<Rightarrow> bool" where
  "ids_injective pid =
     (\<forall>i < length pid. \<forall>j < length pid. i \<noteq> j \<longrightarrow> pid ! i \<noteq> 0 \<longrightarrow> pid ! i \<noteq> pid ! j)"

text \<open>
  Candidates and fiducial centres that differ by the translation (3, 4), small against the
  spacing of the candidates; and three candidates on a line at spacing 10 with centres
  translated by 100.
\<close>

abbreviation near_cand :: "pt list" where
  "near_cand \<equiv> [(100, 50), (200, 50)]"

abbreviation near_metro :: "pt list" where
  "near_metro \<equiv> [(103, 54), (203, 54)]"

abbreviation far_cand :: "pt list" where
  "far_cand \<equiv> [(100, 0), (110, 0), (120, 0)]"

abbreviation far_metro :: "pt list" where
  "far_metro \<equiv> [(0, 0), (10, 0), (20, 0)]"

section \<open>The pinhole assignment in the words of the specification\<close>

text \<open>
  The definitions of this section follow the specification, not the source; the source's
  loop is compared with them. The vector along the first canonical side of a triangle, the
  cosine of the angle between two vectors, and the squared matching distance
  \<open>(r_measured - r_metrology)\<^sup>2 + (c_measured - c_metrology)\<^sup>2 + (|cos| - 1)\<^sup>2\<close>.
\<close>

definition side_vector :: "pt list \<Rightarrow> nat list \<Rightarrow> pt" where
  "side_vector xy k =
     (fst (xy ! (k ! 1)) - fst (xy ! (k ! 0)), snd (xy ! (k ! 1)) - snd (xy ! (k ! 0)))"

definition cos_angle :: "pt \<Rightarrow> pt \<Rightarrow> fl" where
  "cos_angle u v =
     fdiv (fst u * fst v + snd u * snd v)
          (sqrt ((fst u)\<^sup>2 + (snd u)\<^sup>2) * sqrt ((fst v)\<^sup>2 + (snd v)\<^sup>2))"

definition spec_dist2 :: "fl \<Rightarrow> fl \<Rightarrow> pt \<Rightarrow> fl \<Rightarrow> fl \<Rightarrow> pt \<Rightarrow> fl" where
  "spec_dist2 r1 c1 u r2 c2 v =
     fadd (fadd (fsq (fsub r1 r2)) (fsq (fsub c1 c2))) (fsq (fsub (fabs (cos_angle u v)) (Fin 1)))"

text \<open>
  The triangles that are accepted, from the ranked list: flat triangles are skipped, and
  processing stops at the first remaining triangle whose distance exceeds \<open>1e-3\<close>.
\<close>

definition spec_processed :: "fl list \<Rightarrow> fl list \<Rightarrow> nat list \<Rightarrow> nat list" where
  "spec_processed tc1 dist2 ranked =
     takeWhile (\<lambda>p. \<not> fgt (dist2 ! p) (Fin 0.001))
               (filter (\<lambda>p. \<not> fgt (tc1 ! p) (Fin 0.9)) ranked)"

text \<open>
  Accepted triangles assign their points one after the other, until every spot of the
  cluster has a nonzero id.
\<close>

fun spec_accept :: "nat list \<Rightarrow> int \<Rightarrow> int list \<Rightarrow> nat list list \<Rightarrow> nat list list
     \<Rightarrow> nat list \<Rightarrow> nat list
     \<Rightarrow> int list \<times> int list \<times> int list \<Rightarrow> int list \<times> int list \<times> int list" where
  "spec_accept pi1 location ids tk1 tk2 matched [] st = st"
| "spec_accept pi1 location ids tk1 tk2 matched (p # ps) st =
     (let st' = assign_triangle pi1 location ids (tk1 ! p) (tk2 ! (matched ! p)) st
      in if list_all (\<lambda>v. v \<noteq> 0) (fst st') then st'
         else spec_accept pi1 location ids tk1 tk2 matched ps st')"

text \<open>The triangles of the unit square.\<close>

abbreviation square_tk :: "nat list list" where
  "square_tk \<equiv> [[1, 0, 2], [0, 1, 3], [0, 2, 3], [2, 3, 1]]"

abbreviation square_tr :: "fl list" where
  "square_tr \<equiv> [Fin (sqrt 2), Fin (sqrt 2), Fin (sqrt 2), Fin (sqrt 2)]"

abbreviation square_tc :: "fl list" where
  "square_tc \<equiv> [Fin (1 / sqrt 2), Fin (1 / sqrt 2), Fin (1 / sqrt 2), Fin (1 / sqrt 2)]"

section \<open>Properties of compute\_triangles\<close>

subsection \<open>The canonical order, case by case\<close>

lemma upt3: "[0..<3] = [0,1,2]" by (simp add: upt_rec)

lemma argsort3:
  "argsort [a, b, c] =
     (if b \<le> c then (if a \<le> b then [0, 1, 2] else if a \<le> c then [1, 0, 2] else [1, 2, 0])
      else (if a \<le> c then [0, 2, 1] else if a \<le> b then [2, 0, 1] else [2, 1, 0]))"
  by (simp add: argsort_def upt3)

lemma ordering_of_perm:
  "ordering_of [0, 1, 2] = [0, 1, 2]"
  "ordering_of [0, 2, 1] = [1, 0, 2]"
  "ordering_of [1, 0, 2] = [2, 1, 0]"
  "ordering_of [1, 2, 0] = [1, 2, 0]"
  "ordering_of [2, 0, 1] = [2, 0, 1]"
  "ordering_of [2, 1, 0] = [0, 2, 1]"
  by (simp_all add: ordering_of_def pairs_def intersect1d_def)

lemma ordering_of_perm_Suc:
  "ordering_of [0, Suc 0, 2] = [0, 1, 2]"
  "ordering_of [0, 2, Suc 0] = [1, 0, 2]"
  "ordering_of [Suc 0, 0, 2] = [2, 1, 0]"
  "ordering_of [Suc 0, 2, 0] = [1, 2, 0]"
  "ordering_of [2, 0, Suc 0] = [2, 0, 1]"
  "ordering_of [2, Suc 0, 0] = [0, 2, 1]"
  using ordering_of_perm by simp_all

lemma triangle_unfold:
  "triangle xy (i, j, k) =
     (let p = xy ! i; q = xy ! j; u = xy ! k;
          a = sqdist p q; b = sqdist q u; c = sqdist u p
      in if b \<le> c
         then (if a \<le> b then ([i, j, k], fsqrt (fdiv c a), vertex_cos p q u)
               else if a \<le> c then ([k, j, i], fsqrt (fdiv c b), vertex_cos u q p)
               else ([j, k, i], fsqrt (fdiv a b), vertex_cos q u p))
         else (if a \<le> c then ([j, i, k], fsqrt (fdiv b a), vertex_cos q p u)
               else if a \<le> b then ([k, i, j], fsqrt (fdiv b c), vertex_cos u p q)
               else ([i, k, j], fsqrt (fdiv a c), vertex_cos p u q)))"
  by (simp add: triangle_def tl2_of_def argsort3 ordering_of_perm_Suc Let_def)

subsection \<open>The number of triangles\<close>

lemma length_pairs_from:
  "length (concat (map (\<lambda>j. map (\<lambda>k. (i, j, k)) [j + 1..<nn]) [a..<nn])) = (nn - a) choose 2"
proof (induction "nn - a" arbitrary: a)
  case 0
  then show ?case by simp
next
  case (Suc m)
  then have a: "a < nn" and m: "m = nn - Suc a" by auto
  have "[a..<nn] = a # [Suc a..<nn]" using a by (simp add: upt_rec)
  then show ?case using Suc(1)[of "Suc a"] m Suc(2)
    by (simp add: eval_nat_numeral flip: Suc)
qed

lemma length_triples_from:
  "length (concat (map (\<lambda>i. concat (map (\<lambda>j. map (\<lambda>k. (i, j, k)) [j + 1..<nn]) [i + 1..<nn]))
                       [a..<nn])) = (nn - a) choose 3"
proof (induction "nn - a" arbitrary: a)
  case 0
  then show ?case by simp
next
  case (Suc m)
  then have a: "a < nn" and m: "m = nn - Suc a" by auto
  have "[a..<nn] = a # [Suc a..<nn]" using a by (simp add: upt_rec)
  then show ?case
    using Suc(1)[of "Suc a"] m Suc(2) length_pairs_from[where i = a and a = "Suc a" and nn = nn]
    by (simp add: eval_nat_numeral flip: Suc)
qed

lemma length_triples: "length (triples nn) = nn choose 3"
  using length_triples_from[of nn 0] by (simp add: triples_def)

lemma choose3: "6 * (m choose 3) = m * (m - 1) * (m - 2)"
proof -
  have a: "3 * (m choose 3) = m * ((m - 1) choose 2)"
    using times_binomial_minus1_eq[of 3 m] by simp
  have b: "2 * ((m - 1) choose 2) = (m - 1) * (m - 2)"
    using times_binomial_minus1_eq[of 2 "m - 1"] by (simp add: numeral_2_eq_2)
  have "6 * (m choose 3) = 2 * (3 * (m choose 3))" by simp
  also have "\<dots> = m * (2 * ((m - 1) choose 2))" using a by simp
  finally show ?thesis by (simp only: b mult.assoc)
qed

lemma set_triples: "set (triples nn) = {(i, j, k). i < j \<and> j < k \<and> k < nn}"
  unfolding triples_def by (auto simp: Suc_le_eq image_iff)

subsection \<open>The ranges of the features\<close>

lemma sqdist_nonneg: "0 \<le> sqdist p q"
  by (simp add: sqdist_def)

lemma sqdist_eq_0_iff: "sqdist p q = 0 \<longleftrightarrow> p = q"
  by (auto simp: sqdist_def prod_eq_iff sum_power2_eq_zero_iff)

lemma sqdist_pos: "p \<noteq> q \<Longrightarrow> 0 < sqdist p q"
  using sqdist_nonneg[of p q] sqdist_eq_0_iff[of p q] by linarith

lemma cauchy2: "((a::real) * c + b * d)\<^sup>2 \<le> (a\<^sup>2 + b\<^sup>2) * (c\<^sup>2 + d\<^sup>2)"
proof -
  have "(a\<^sup>2 + b\<^sup>2) * (c\<^sup>2 + d\<^sup>2) - (a * c + b * d)\<^sup>2 = (a * d - b * c)\<^sup>2"
    by (simp add: power2_eq_square algebra_simps)
  moreover have "0 \<le> (a * d - b * c)\<^sup>2" by simp
  ultimately show ?thesis by linarith
qed

lemma vertex_cos_Fin:
  assumes "v0 \<noteq> v1" "v0 \<noteq> v2"
  shows "\<exists>c. vertex_cos v0 v1 v2 = Fin c \<and> - 1 \<le> c \<and> c \<le> 1"
proof -
  define a where "a = fst v1 - fst v0"
  define b where "b = snd v1 - snd v0"
  define c where "c = fst v2 - fst v0"
  define d where "d = snd v2 - snd v0"
  define D where "D = sqrt ((a\<^sup>2 + b\<^sup>2) * (c\<^sup>2 + d\<^sup>2))"
  have p1: "0 < a\<^sup>2 + b\<^sup>2" using sqdist_pos[OF assms(1)] by (simp add: sqdist_def a_def b_def)
  have p2: "0 < c\<^sup>2 + d\<^sup>2" using sqdist_pos[OF assms(2)] by (simp add: sqdist_def c_def d_def)
  have Dpos: "0 < D" unfolding D_def using p1 p2 by simp
  have "\<bar>a * c + b * d\<bar> \<le> D"
    unfolding D_def using cauchy2[of a c b d] by (simp add: real_le_rsqrt)
  then have "- 1 \<le> (a * c + b * d) / D \<and> (a * c + b * d) / D \<le> 1"
    using Dpos by (simp add: field_simps abs_le_iff)
  moreover have "vertex_cos v0 v1 v2 = fdiv (a * c + b * d) D"
    unfolding vertex_cos_def D_def a_def b_def c_def d_def by simp
  then have "vertex_cos v0 v1 v2 = Fin ((a * c + b * d) / D)"
    using Dpos by (simp add: fdiv_def)
  ultimately show ?thesis by blast
qed

lemma ratio_Fin:
  assumes "0 < a" "a \<le> c"
  shows "\<exists>r. fsqrt (fdiv c a) = Fin r \<and> 1 \<le> r"
proof -
  have "1 \<le> c / a" using assms by (simp add: field_simps)
  then have "1 \<le> sqrt (c / a)" by simp
  moreover have "\<not> c / a < 0" using assms by (simp add: not_less)
  then have "fsqrt (fdiv c a) = Fin (sqrt (c / a))"
    using assms(1) by (simp add: fdiv_def)
  ultimately show ?thesis by blast
qed

lemma triangle_bounds:
  assumes "xy ! i \<noteq> xy ! j" "xy ! j \<noteq> xy ! k" "xy ! i \<noteq> xy ! k"
    and "triangle xy (i, j, k) = (tk, r, c)"
  shows "(\<exists>r'. r = Fin r' \<and> 1 \<le> r') \<and> (\<exists>c'. c = Fin c' \<and> - 1 \<le> c' \<and> c' \<le> 1)"
proof -
  have pos: "0 < sqdist (xy ! i) (xy ! j)" "0 < sqdist (xy ! j) (xy ! k)"
            "0 < sqdist (xy ! k) (xy ! i)"
    using assms(1-3) by (auto intro: sqdist_pos)
  have neqs: "xy ! j \<noteq> xy ! i" "xy ! k \<noteq> xy ! j" "xy ! k \<noteq> xy ! i"
    using assms(1-3) by auto
  show ?thesis
    using assms(4) pos
    unfolding triangle_unfold Let_def
    by (auto split: if_splits intro!: ratio_Fin vertex_cos_Fin assms(1-3) neqs)
qed

subsection \<open>Invariance under similarity transformations\<close>

lemma fdiv_scale: "0 < k \<Longrightarrow> fdiv (k * a) (k * b) = fdiv a b"
  by (auto simp: fdiv_def zero_less_mult_iff mult_less_0_iff)

lemma rot_sq:
  "((c::real) * x - s * y)\<^sup>2 + (s * x + c * y)\<^sup>2 = (c\<^sup>2 + s\<^sup>2) * (x\<^sup>2 + y\<^sup>2)"
  by (simp add: power2_eq_square algebra_simps)

lemma rot_dot:
  "((c::real) * x - s * y) * (c * u - s * v) + (s * x + c * y) * (s * u + c * v)
   = (c\<^sup>2 + s\<^sup>2) * (x * u + y * v)"
  by (simp add: power2_eq_square algebra_simps)

lemma sqdist_similarity:
  "sqdist (similarity s \<theta> a b p) (similarity s \<theta> a b q) = s\<^sup>2 * sqdist p q"
proof -
  have "sqdist (similarity s \<theta> a b p) (similarity s \<theta> a b q)
        = s\<^sup>2 * ((cos \<theta> * (fst q - fst p) - sin \<theta> * (snd q - snd p))\<^sup>2
                + (sin \<theta> * (fst q - fst p) + cos \<theta> * (snd q - snd p))\<^sup>2)"
    by (simp add: sqdist_def similarity_def power2_eq_square algebra_simps)
  also have "\<dots> = s\<^sup>2 * (((cos \<theta>)\<^sup>2 + (sin \<theta>)\<^sup>2) * sqdist p q)"
    by (simp only: rot_sq sqdist_def)
  finally show ?thesis by simp
qed

lemma vertex_cos_alt:
  "vertex_cos v0 v1 v2 =
     fdiv ((fst v1 - fst v0) * (fst v2 - fst v0) + (snd v1 - snd v0) * (snd v2 - snd v0))
          (sqrt (sqdist v0 v1 * sqdist v0 v2))"
  by (simp add: vertex_cos_def sqdist_def)

lemma dot_similarity:
  "(fst (similarity s \<theta> a b v1) - fst (similarity s \<theta> a b v0))
     * (fst (similarity s \<theta> a b v2) - fst (similarity s \<theta> a b v0))
   + (snd (similarity s \<theta> a b v1) - snd (similarity s \<theta> a b v0))
     * (snd (similarity s \<theta> a b v2) - snd (similarity s \<theta> a b v0))
   = s\<^sup>2 * ((fst v1 - fst v0) * (fst v2 - fst v0) + (snd v1 - snd v0) * (snd v2 - snd v0))"
proof -
  let ?x = "fst v1 - fst v0" and ?y = "snd v1 - snd v0"
  let ?u = "fst v2 - fst v0" and ?v = "snd v2 - snd v0"
  have "(fst (similarity s \<theta> a b v1) - fst (similarity s \<theta> a b v0))
     * (fst (similarity s \<theta> a b v2) - fst (similarity s \<theta> a b v0))
   + (snd (similarity s \<theta> a b v1) - snd (similarity s \<theta> a b v0))
     * (snd (similarity s \<theta> a b v2) - snd (similarity s \<theta> a b v0))
     = s\<^sup>2 * ((cos \<theta> * ?x - sin \<theta> * ?y) * (cos \<theta> * ?u - sin \<theta> * ?v)
              + (sin \<theta> * ?x + cos \<theta> * ?y) * (sin \<theta> * ?u + cos \<theta> * ?v))"
    by (simp add: similarity_def power2_eq_square algebra_simps)
  also have "\<dots> = s\<^sup>2 * (((cos \<theta>)\<^sup>2 + (sin \<theta>)\<^sup>2) * (?x * ?u + ?y * ?v))"
    by (simp only: rot_dot)
  finally show ?thesis by simp
qed

lemma vertex_cos_similarity:
  assumes "0 < s"
  shows "vertex_cos (similarity s \<theta> a b v0) (similarity s \<theta> a b v1) (similarity s \<theta> a b v2)
         = vertex_cos v0 v1 v2"
proof -
  have "sqrt (s\<^sup>2 * sqdist v0 v1 * (s\<^sup>2 * sqdist v0 v2)) = s\<^sup>2 * sqrt (sqdist v0 v1 * sqdist v0 v2)"
  proof -
    have "s\<^sup>2 * sqdist v0 v1 * (s\<^sup>2 * sqdist v0 v2) = (s\<^sup>2)\<^sup>2 * (sqdist v0 v1 * sqdist v0 v2)"
      by (simp only: power2_eq_square mult_ac)
    then have "sqrt (s\<^sup>2 * sqdist v0 v1 * (s\<^sup>2 * sqdist v0 v2))
               = sqrt ((s\<^sup>2)\<^sup>2) * sqrt (sqdist v0 v1 * sqdist v0 v2)"
      by (simp only: real_sqrt_mult)
    also have "sqrt ((s\<^sup>2)\<^sup>2) = s\<^sup>2" by (simp only: real_sqrt_abs abs_power2)
    finally show ?thesis .
  qed
  then show ?thesis
    using assms
    by (simp only: vertex_cos_alt sqdist_similarity dot_similarity) (simp add: fdiv_scale)
qed

lemma triangle_similarity:
  assumes "0 < s" "i < length xy" "j < length xy" "k < length xy"
  shows "triangle (map (similarity s \<theta> a b) xy) (i, j, k) = triangle xy (i, j, k)"
proof -
  have s2: "0 < s\<^sup>2" using assms(1) by simp
  have le: "\<And>x y. s\<^sup>2 * x \<le> s\<^sup>2 * y \<longleftrightarrow> x \<le> y" using s2 by simp
  show ?thesis
    using assms(2-4)
    by (simp add: triangle_unfold Let_def sqdist_similarity le fdiv_scale[OF s2]
        vertex_cos_similarity[OF assms(1)])
qed

text \<open>
  Claim C6. Applying one rotation, one translation and one scaling by a positive factor to
  all points leaves the result of \<open>compute_triangles\<close> unchanged: the ratio \<open>r\<close> and the
  cosine \<open>c\<close> of every triangle, and its vertex order as well. This is exact over the real
  numbers; rounding is not modelled.
\<close>

theorem compute_triangles_similarity:
  assumes "0 < s"
  shows "compute_triangles (map (similarity s \<theta> a b) xy) = compute_triangles xy"
proof -
  have "map (triangle (map (similarity s \<theta> a b) xy)) (triples (length xy))
        = map (triangle xy) (triples (length xy))"
  proof (rule map_cong[OF refl])
    fix t assume "t \<in> set (triples (length xy))"
    then obtain i j k where "t = (i, j, k)" "i < j" "j < k" "k < length xy"
      by (auto simp: set_triples)
    then show "triangle (map (similarity s \<theta> a b) xy) t = triangle xy t"
      using triangle_similarity[OF assms, of i xy j k] by simp
  qed
  then show ?thesis by (simp add: compute_triangles_def)
qed

theorem compute_triangles_similarity_witness:
  "(0::real) < 2 \<and>
   compute_triangles (map (similarity 2 (pi / 2) 100 50) [(0, 0), (1, 0), (0, 2), (3, 3)])
   = compute_triangles [(0, 0), (1, 0), (0, 2), (3, 3)]"
  using compute_triangles_similarity[of 2 "pi / 2" 100 50 "[(0, 0), (1, 0), (0, 2), (3, 3)]"]
  by simp

subsection \<open>Completeness and ranges\<close>

lemma triples4: "triples 4 = [(0, 1, 2), (0, 1, 3), (0, 2, 3), (1, 2, 3)]"
  by (simp add: triples_def upt_rec)

lemma triples3: "triples 3 = [(0, 1, 2)]"
  by (simp add: triples_def upt_rec)

lemma compute_triangles3:
  "compute_triangles [p, q, u] =
     ([fst (triangle [p, q, u] (0, 1, 2))],
      [fst (snd (triangle [p, q, u] (0, 1, 2)))],
      [snd (snd (triangle [p, q, u] (0, 1, 2)))])"
  using triples3 by (simp add: compute_triangles_def numeral_3_eq_3)

lemma compute_triangles_lengths:
  "length (fst (compute_triangles xy)) = length xy choose 3"
  "length (fst (snd (compute_triangles xy))) = length xy choose 3"
  "length (snd (snd (compute_triangles xy))) = length xy choose 3"
  by (simp_all add: compute_triangles_def Let_def length_triples)

lemma compute_triangles_nth:
  assumes "t < length (triples (length xy))"
  shows "fst (compute_triangles xy) ! t = fst (triangle xy (triples (length xy) ! t))"
    and "fst (snd (compute_triangles xy)) ! t = fst (snd (triangle xy (triples (length xy) ! t)))"
    and "snd (snd (compute_triangles xy)) ! t = snd (snd (triangle xy (triples (length xy) ! t)))"
  using assms by (simp_all add: compute_triangles_def Let_def)

text \<open>
  Claim C5, as the code has it. \<open>compute_triangles\<close> returns one triangle per unordered
  triple of the \<open>m\<close> points, \<open>C(m,3) = m(m-1)(m-2)/6\<close> of them. When the points are pairwise
  distinct, every ratio is at least 1 and every cosine lies between -1 and 1. Points that
  coincide make a side of length zero, and the division by it gives an infinite ratio or a
  not-a-number, for which the comparisons are false.
\<close>

theorem compute_triangles_complete:
  "length (fst (compute_triangles xy)) = length xy choose 3 \<and>
   6 * length (fst (compute_triangles xy)) = length xy * (length xy - 1) * (length xy - 2) \<and>
   length (fst (snd (compute_triangles xy))) = length (fst (compute_triangles xy)) \<and>
   length (snd (snd (compute_triangles xy))) = length (fst (compute_triangles xy)) \<and>
   (distinct xy \<longrightarrow>
      (\<forall>t < length (fst (compute_triangles xy)).
         fge (fst (snd (compute_triangles xy)) ! t) (Fin 1) \<and>
         fge (snd (snd (compute_triangles xy)) ! t) (Fin (- 1)) \<and>
         fle (snd (snd (compute_triangles xy)) ! t) (Fin 1)))"
proof -
  have ranges: "fge (fst (snd (compute_triangles xy)) ! t) (Fin 1) \<and>
         fge (snd (snd (compute_triangles xy)) ! t) (Fin (- 1)) \<and>
         fle (snd (snd (compute_triangles xy)) ! t) (Fin 1)"
    if d: "distinct xy" and t: "t < length (fst (compute_triangles xy))" for t
  proof -
    have t': "t < length (triples (length xy))"
      using t by (simp add: compute_triangles_lengths length_triples)
    then have "triples (length xy) ! t \<in> set (triples (length xy))" by simp
    then obtain i j k where ijk: "triples (length xy) ! t = (i, j, k)"
        "i < j" "j < k" "k < length xy"
      by (auto simp: set_triples)
    have ne: "xy ! i \<noteq> xy ! j" "xy ! j \<noteq> xy ! k" "xy ! i \<noteq> xy ! k"
      using d ijk(2-4) by (auto simp: nth_eq_iff_index_eq)
    obtain tk r c where tri: "triangle xy (i, j, k) = (tk, r, c)"
      by (cases "triangle xy (i, j, k)") auto
    from triangle_bounds[OF ne tri]
    obtain r' c' where "r = Fin r'" "1 \<le> r'" "c = Fin c'" "- 1 \<le> c'" "c' \<le> 1" by blast
    then show ?thesis
      using compute_triangles_nth[OF t'] ijk(1) tri
      by (auto simp: fge_def fle_def)
  qed
  show ?thesis
    using ranges by (simp add: compute_triangles_lengths choose3)
qed

theorem compute_triangles_complete_witness:
  "distinct ([(0, 0), (1, 0), (0, 2)] :: pt list) \<and>
   length (fst (compute_triangles [(0, 0), (1, 0), (0, 2)])) = 1 \<and>
   fge (fst (snd (compute_triangles [(0, 0), (1, 0), (0, 2)])) ! 0) (Fin 1) \<and>
   fge (snd (snd (compute_triangles [(0, 0), (1, 0), (0, 2)])) ! 0) (Fin (- 1)) \<and>
   fle (snd (snd (compute_triangles [(0, 0), (1, 0), (0, 2)])) ! 0) (Fin 1)"
  using compute_triangles_complete[of "[(0, 0), (1, 0), (0, 2)]"]
  by (simp add: compute_triangles3)

text \<open>
  Claim C5 as stated, for every point set, fails on three spots at one position: the ratio
  and the cosine are both not-a-number.
\<close>

theorem compute_triangles_ranges_counterexample:
  "\<not> fge (fst (snd (compute_triangles [(0, 0), (0, 0), (0, 0)])) ! 0) (Fin 1) \<and>
   \<not> fge (snd (snd (compute_triangles [(0, 0), (0, 0), (0, 0)])) ! 0) (Fin (- 1)) \<and>
   \<not> fle (snd (snd (compute_triangles [(0, 0), (0, 0), (0, 0)])) ! 0) (Fin 1)"
  by (simp add: compute_triangles3 triangle_unfold sqdist_def vertex_cos_def
      fdiv_def fge_def fle_def)

section \<open>The missing metrology file\<close>

text \<open>
  Claim C8. When no metrology table is cached and the metrology file does not exist,
  \<open>findfiducials\<close> raises the \<open>IOError\<close> that names the file. The file is looked for once;
  the caller's table and the module state are as before the call.
\<close>

theorem missing_metrology_is_fatal:
  assumes "metrology_pinholes_table s = None" and "metrology_file s = None"
  shows "findfiducials input_tx separation s
         = (Inl (IOError (''cannot find '' @ metrology_filename s)), s)"
  using assms by (simp add: findfiducials_def load_metrology_def)

theorem missing_metrology_is_fatal_witness:
  "metrology_pinholes_table no_metrology_state = None \<and>
   metrology_file no_metrology_state = None \<and>
   findfiducials (\<lambda>p. p) 7 no_metrology_state
     = (Inl (IOError ''cannot find data/fp-metrology.csv''), no_metrology_state)"
  using missing_metrology_is_fatal[of no_metrology_state "\<lambda>p. p" 7]
  by (simp add: no_metrology_state_def)

section \<open>The candidate detector\<close>

lemma flt_Fin: "flt (Fin a) (Fin b) = (a < b)"
  by simp

lemma kd_query_count:
  "number_of_neighbors sep (kd_query data k (Fin sep) x)
   = min k (length (filter (\<lambda>i. distance x (data ! i) < sep) [0..<length data]))"
proof -
  define near where "near = filter (\<lambda>(d, i). flt (Fin d) (Fin sep))
                        (map (\<lambda>i. (distance x (data ! i), i)) [0..<length data])"
  define found where "found = take k (sort_key fst near)"
  have in_near: "\<And>e. e \<in> set found \<Longrightarrow> fst e < sep"
  proof -
    fix e assume "e \<in> set found"
    then have "e \<in> set near" unfolding found_def by (auto dest: in_set_takeD)
    then show "fst e < sep" unfolding near_def by auto
  qed
  have keep: "filter (\<lambda>(d, i). flt d (Fin sep)) (map (\<lambda>(d, i). (Fin d, i)) found)
              = map (\<lambda>(d, i). (Fin d, i)) found"
    using in_near by (auto simp: filter_map o_def case_prod_beta filter_id_conv)
  have drop: "filter (\<lambda>(d, i). flt d (Fin sep)) (replicate n (PInf, m)) = []" for n m
    by (induction n) auto
  have len_near: "length near = length (filter (\<lambda>i. distance x (data ! i) < sep) [0..<length data])"
    unfolding near_def by (simp add: filter_map o_def)
  have "number_of_neighbors sep (kd_query data k (Fin sep) x) = length found"
    unfolding number_of_neighbors_def kd_query_def Let_def near_def[symmetric] found_def[symmetric]
    by (simp add: keep drop)
  also have "\<dots> = min k (length near)" unfolding found_def by (simp add: min.commute)
  finally show ?thesis using len_near by simp
qed

lemma length_filter_upt_card:
  "length (filter P [0..<n]) = card {j. j < n \<and> P j}"
proof -
  have "{i. i < length [0..<n] \<and> P ([0..<n] ! i)} = {j. j < n \<and> P j}" by auto
  then show ?thesis using length_filter_conv_card[of P "[0..<n]"] by simp
qed

lemma candidate_iff:
  "i \<in> set (fiducials_candidates sep xy) \<longleftrightarrow>
     i < length xy \<and> 3 \<le> card {j. j < length xy \<and> distance (xy ! i) (xy ! j) < sep}"
  by (auto simp: fiducials_candidates_def measured_spots_def kd_query_count length_filter_upt_card)

lemma less_sqrt_iff: "0 \<le> a \<Longrightarrow> a < sqrt b \<longleftrightarrow> a\<^sup>2 < b"
  by (metis real_sqrt_less_iff real_sqrt_abs abs_of_nonneg)

lemma sqrt_less_iff: "0 < a \<Longrightarrow> sqrt b < a \<longleftrightarrow> b < a\<^sup>2"
  by (metis real_sqrt_less_iff real_sqrt_abs abs_of_pos)

lemma le_sqrt_iff: "0 \<le> a \<Longrightarrow> a \<le> sqrt b \<longleftrightarrow> a\<^sup>2 \<le> b"
  by (metis real_sqrt_le_iff real_sqrt_abs abs_of_nonneg)

lemma sqrt_le_iff: "0 \<le> a \<Longrightarrow> sqrt b \<le> a \<longleftrightarrow> b \<le> a\<^sup>2"
  by (metis real_sqrt_le_iff real_sqrt_abs abs_of_nonneg)

lemma distance_sym: "distance p q = distance q p"
  by (simp add: distance_def sqdist_def power2_commute)

lemma distance_self: "distance p p = 0"
  by (simp add: distance_def sqdist_def)

lemma candidates_scenario:
  assumes len: "length xy = 5" and lone: "lone < 5"
    and far: "\<forall>j<5. j \<noteq> lone \<longrightarrow> sep < distance (xy ! lone) (xy ! j)"
    and near: "\<forall>k<5. \<forall>j<5. k \<noteq> lone \<longrightarrow> j \<noteq> lone \<longrightarrow> distance (xy ! k) (xy ! j) < sep"
  shows "set (fiducials_candidates sep xy) = {0..<5} - {lone}"
proof -
  have not_lone: "lone \<notin> set (fiducials_candidates sep xy)"
  proof -
    have "{j. j < length xy \<and> distance (xy ! lone) (xy ! j) < sep} \<subseteq> {lone}"
      using far len by (auto simp: not_less)
    then have "card {j. j < length xy \<and> distance (xy ! lone) (xy ! j) < sep} \<le> card {lone}"
      by (intro card_mono) auto
    then show ?thesis by (simp add: candidate_iff)
  qed
  have clus: "k \<in> set (fiducials_candidates sep xy)" if "k < 5" "k \<noteq> lone" for k
  proof -
    have sub: "{0..<5} - {lone} \<subseteq> {j. j < length xy \<and> distance (xy ! k) (xy ! j) < sep}"
      using near that len by auto
    have "card ({0..<5} - {lone}) = 4" using lone by simp
    moreover have "card ({0..<5} - {lone})
                   \<le> card {j. j < length xy \<and> distance (xy ! k) (xy ! j) < sep}"
      by (intro card_mono sub) simp
    ultimately show ?thesis using that len by (simp add: candidate_iff)
  qed
  have bound: "k < 5" if "k \<in> set (fiducials_candidates sep xy)" for k
    using that len by (simp add: candidate_iff)
  show ?thesis
  proof (intro set_eqI iffI)
    fix k assume k: "k \<in> set (fiducials_candidates sep xy)"
    then have "k \<noteq> lone" using not_lone by blast
    then show "k \<in> {0..<5} - {lone}" using bound[OF k] by simp
  next
    fix k assume "k \<in> {0..<5} - {lone}"
    then have "k < 5" "k \<noteq> lone" by auto
    then show "k \<in> set (fiducials_candidates sep xy)" by (rule clus)
  qed
qed

lemma all_less_5: "(\<forall>j<5. P j) \<longleftrightarrow> P 0 \<and> P 1 \<and> P 2 \<and> P 3 \<and> P (4::nat)"
proof -
  have "{j::nat. j < 5} = {0, 1, 2, 3, 4}" by auto
  then show ?thesis by (metis (no_types, lifting) insert_iff mem_Collect_eq empty_iff)
qed

text \<open>
  Claim C4. The query returns the up to 4 spots nearest to a spot among those closer than
  \<open>separation\<close>, the spot itself (at distance 0) included. At least 3 of them lie within
  \<open>separation\<close> exactly when at least 3 spots of the table do, which is the test below;
  within means closer than \<open>separation\<close>, as the code compares. In a table of one spot
  farther than \<open>separation\<close> from all others and four spots closer than \<open>separation\<close> to each
  other, the four are flagged and the lone spot is not.
\<close>

theorem candidate_rule:
  "(i \<in> set (fiducials_candidates sep xy) \<longleftrightarrow>
      i < length xy \<and> 3 \<le> card {j. j < length xy \<and> distance (xy ! i) (xy ! j) < sep}) \<and>
   (length xy = 5 \<and> lone < 5 \<and>
    (\<forall>j<5. j \<noteq> lone \<longrightarrow> sep < distance (xy ! lone) (xy ! j)) \<and>
    (\<forall>k<5. \<forall>j<5. k \<noteq> lone \<longrightarrow> j \<noteq> lone \<longrightarrow> distance (xy ! k) (xy ! j) < sep)
    \<longrightarrow> set (fiducials_candidates sep xy) = {0..<5} - {lone})"
  using candidate_iff[of i sep xy] candidates_scenario[of xy lone sep] by blast

theorem candidate_rule_witness:
  "length five_spots = 5 \<and> (0::nat) < 5 \<and>
   7 < distance (five_spots ! 0) (five_spots ! 1) \<and>
   7 < distance (five_spots ! 0) (five_spots ! 4) \<and>
   distance (five_spots ! 1) (five_spots ! 4) < 7 \<and>
   distance (five_spots ! 2) (five_spots ! 3) < 7 \<and>
   (0 \<in> set (fiducials_candidates 7 five_spots)) = False \<and>
   set (fiducials_candidates 7 five_spots) = {1, 2, 3, 4}"
proof -
  have h1: "length five_spots = 5" by (simp add: five_spots_def)
  have h2: "\<forall>j<5. j \<noteq> 0 \<longrightarrow> 7 < distance (five_spots ! 0) (five_spots ! j)"
    by (simp add: all_less_5 five_spots_def distance_def sqdist_def less_sqrt_iff)
  have h3: "\<forall>k<5. \<forall>j<5. k \<noteq> 0 \<longrightarrow> j \<noteq> 0 \<longrightarrow> distance (five_spots ! k) (five_spots ! j) < 7"
    by (simp add: all_less_5 five_spots_def distance_def sqdist_def sqrt_less_iff)
  have "{0..<5} - {0::nat} = {1, 2, 3, 4}" by auto
  then have "set (fiducials_candidates 7 five_spots) = {1, 2, 3, 4}"
    using candidate_rule[of 0 7 five_spots 0] h1 h2 h3 by simp
  then show ?thesis
    using h1 h2 h3 by (simp add: all_less_5)
qed

section \<open>Index ranges\<close>

lemma triangle_indices:
  "fst (triangle xy (i, j, k)) \<in> {[i, j, k], [k, j, i], [j, k, i], [j, i, k], [k, i, j], [i, k, j]}"
  by (simp add: triangle_unfold Let_def)

lemma compute_triangles_indices:
  assumes "k \<in> set (fst (compute_triangles xy))"
  shows "length k = 3 \<and> distinct k \<and> (\<forall>a \<in> set k. a < length xy)"
proof -
  from assms obtain t where t: "t \<in> set (triples (length xy))" and k: "k = fst (triangle xy t)"
    by (auto simp: compute_triangles_def Let_def)
  obtain i j l where ijl: "t = (i, j, l)" "i < j" "j < l" "l < length xy"
    using t by (auto simp: set_triples)
  show ?thesis
    using triangle_indices[of xy i j l] k ijl by auto
qed

lemma argmin_fl_less:
  assumes "xs \<noteq> []"
  shows "argmin_fl xs < length xs"
proof -
  have "fold (\<lambda>i b. if xs ! b \<noteq> NaN \<and> (xs ! i = NaN \<or> flt (xs ! i) (xs ! b)) then i else b) is b
        < length xs"
    if "b < length xs" "\<forall>i \<in> set is. i < length xs" for "is" b
    using that by (induction "is" arbitrary: b) auto
  then show ?thesis using assms by (simp add: argmin_fl_def)
qed

lemma set_argsort_fl: "set (argsort_fl xs) = {0..<length xs}"
  by (simp add: argsort_fl_def)

lemma distinct_argsort_fl: "distinct (argsort_fl xs)"
  by (simp add: argsort_fl_def)

lemma length_features: "length (features xy) = length (fst (compute_triangles xy))"
  by (simp add: features_def split: prod.splits)

lemma length_dist2_matrix: "length (dist2_matrix xy1 xy2) = length (fst (compute_triangles xy1))"
  by (simp add: dist2_matrix_def length_features)

lemma length_dist2_row:
  "row \<in> set (dist2_matrix xy1 xy2) \<Longrightarrow> length row = length (fst (compute_triangles xy2))"
  by (auto simp: dist2_matrix_def length_features)

lemma length_kd_query: "length (kd_query data k bound x) = k"
  by (simp add: kd_query_def Let_def)

lemma length_cluster_spots:
  "i < length xy \<Longrightarrow> length (cluster_spots sep (measured_spots sep xy ! i)) \<le> 4"
proof -
  assume "i < length xy"
  then have "length (measured_spots sep xy ! i) = 4"
    by (simp add: measured_spots_def length_kd_query)
  moreover have "length (cluster_spots sep row) \<le> length row" for row
    by (simp add: cluster_spots_def)
  ultimately show ?thesis by metis
qed

section \<open>Effects of the assignment\<close>

lemma length_fold_update: "length (fold (\<lambda>a col. col[f a := g a col]) k col) = length col"
  by (induction k arbitrary: col) auto

lemma length_fold_zip_update:
  "length (fold (\<lambda>(a, b) ids. ids[a := h b]) ks pin) = length pin"
  by (induction ks arbitrary: pin) auto

lemma fold_update_const:
  "fold (\<lambda>a col. col[f a := v]) k col ! j
   = (if j \<in> f ` set k \<and> j < length col then v else col ! j)"
proof (induction k arbitrary: col)
  case Nil
  then show ?case by simp
next
  case (Cons a k)
  show ?case
    by (cases "f a < length col") (auto simp: Cons.IH nth_list_update list_update_beyond)
qed

lemma fold_update_fun:
  "(j \<in> f ` set k \<and> j < length col \<longrightarrow> fold (\<lambda>a col. col[f a := g a]) k col ! j \<in> g ` set k) \<and>
   (\<not> (j \<in> f ` set k \<and> j < length col) \<longrightarrow> fold (\<lambda>a col. col[f a := g a]) k col ! j = col ! j)"
proof (induction k arbitrary: col)
  case Nil
  then show ?case by simp
next
  case (Cons a k)
  show ?case
    using Cons.IH[of "col[f a := g a]"]
    by (cases "f a < length col") (auto simp: nth_list_update list_update_beyond split: if_splits)
qed

lemma fold_zip_update_written:
  assumes "a \<in> fst ` set ks" "a < length pin"
  shows "fold (\<lambda>(a, b) ids. ids[a := h b]) ks pin ! a \<in> h ` snd ` set ks"
  using assms
proof (induction ks arbitrary: pin)
  case Nil
  then show ?case by simp
next
  case (Cons e ks)
  obtain a' b' where e: "e = (a', b')" by (cases e)
  show ?case
  proof (cases "a \<in> fst ` set ks")
    case True
    then show ?thesis using Cons.IH[of "pin[a' := h b']"] Cons.prems e by auto
  next
    case False
    then have a: "a = a'" using Cons.prems(1) e by auto
    have keep: "fold (\<lambda>(a, b) ids. ids[a := h b]) ks q ! a = q ! a" for q
      using False by (induction ks arbitrary: q) auto
    show ?thesis using keep[of "pin[a' := h b']"] Cons.prems(2) a e by simp
  qed
qed

lemma assign_loop_invariant:
  assumes "P st"
    and "\<And>p st. p \<in> set ps \<Longrightarrow> P st
          \<Longrightarrow> P (assign_triangle pi1 location ids (tk1 ! p) (tk2 ! (matched ! p)) st)"
  shows "P (assign_loop pi1 location ids tk1 tc1 tk2 matched dist2 ps st)"
  using assms
proof (induction ps arbitrary: st)
  case Nil
  then show ?case by simp
next
  case (Cons p ps)
  have step: "P (assign_triangle pi1 location ids (tk1 ! p) (tk2 ! (matched ! p)) st)"
    using Cons.prems by simp
  show ?case
    using Cons.IH[of st] Cons.IH[OF step] Cons.prems step
    by (simp add: Let_def)
qed

lemma assign_triangle_lengths:
  assumes "assign_triangle pi1 location ids k1 k2 (pin, loc, pid) = (pin', loc', pid')"
  shows "length pin' = length pin" "length loc' = length loc" "length pid' = length pid"
  using assms
  by (auto simp: assign_triangle_def Let_def length_fold_update length_fold_zip_update
      length_fold_update[where g = "\<lambda>a col. v" for v])

lemma assign_triangle_loc:
  assumes "assign_triangle pi1 location ids k1 k2 (pin, loc, pid) = (pin', loc', pid')"
  shows "loc' ! j = (if j \<in> (\<lambda>a. pi1 ! a) ` set k1 \<and> j < length loc then location else loc ! j)"
  using assms by (auto simp: assign_triangle_def Let_def fold_update_const)

lemma assign_triangle_pid:
  assumes "assign_triangle pi1 location ids k1 k2 (pin, loc, pid) = (pin', loc', pid')"
  shows "(j \<in> (\<lambda>a. pi1 ! a) ` set k1 \<and> j < length pid \<longrightarrow> pid' ! j \<in> (\<lambda>a. pin' ! a) ` set k1) \<and>
         (\<not> (j \<in> (\<lambda>a. pi1 ! a) ` set k1 \<and> j < length pid) \<longrightarrow> pid' ! j = pid ! j)"
  using assms fold_update_fun[of j "\<lambda>a. pi1 ! a" k1 pid "\<lambda>a. pin' ! a"]
  by (auto simp: assign_triangle_def Let_def)

lemma assign_triangle_pin:
  assumes "assign_triangle pi1 location ids k1 k2 (pin, loc, pid) = (pin', loc', pid')"
    and "a \<in> set k1" "length k1 = length k2" "a < length pin"
  shows "pin' ! a \<in> (\<lambda>b. ids ! b) ` set k2"
proof -
  have "fst ` set (zip k1 k2) = set k1" "snd ` set (zip k1 k2) = set k2"
    using assms(3) by (simp_all add: map_fst_zip map_snd_zip flip: set_map)
  then show ?thesis
    using assms fold_zip_update_written[of a "zip k1 k2" pin "\<lambda>b. ids ! b"]
    by (auto simp: assign_triangle_def Let_def)
qed

lemma assign_cluster_invariant:
  assumes run: "assign_cluster xy pinholes pi1 location (loc, pid) = Inr (loc', pid')"
    and P0: "P (replicate (length pi1) 0, loc, pid)"
    and step: "\<And>k1 k2 st.
        k1 \<in> set (fst (compute_triangles (map (\<lambda>i. xy ! i) pi1))) \<Longrightarrow>
        k2 \<in> set (fst (compute_triangles (map (\<lambda>i. m_PIX (pinholes ! i))
                   (filter (\<lambda>i. m_LOCATION (pinholes ! i) = location) [0..<length pinholes])))) \<Longrightarrow>
        P st \<Longrightarrow>
        P (assign_triangle pi1 location
             (map (\<lambda>i. m_PINHOLE_ID (pinholes ! i))
                  (filter (\<lambda>i. m_LOCATION (pinholes ! i) = location) [0..<length pinholes]))
             k1 k2 st)"
  shows "\<exists>pin. P (pin, loc', pid')"
proof -
  define pi2 where "pi2 = filter (\<lambda>i. m_LOCATION (pinholes ! i) = location) [0..<length pinholes]"
  define xy1 where "xy1 = map (\<lambda>i. xy ! i) pi1"
  define xy2 where "xy2 = map (\<lambda>i. m_PIX (pinholes ! i)) pi2"
  define tk1 where "tk1 = fst (compute_triangles xy1)"
  define tc1 where "tc1 = snd (snd (compute_triangles xy1))"
  define tk2 where "tk2 = fst (compute_triangles xy2)"
  define d where "d = dist2_matrix xy1 xy2"
  define matched where "matched = map argmin_fl d"
  define dist2 where "dist2 = map (\<lambda>row. row ! argmin_fl row) d"
  define ids where "ids = map (\<lambda>i. m_PINHOLE_ID (pinholes ! i)) pi2"
  define res where "res = assign_loop pi1 location ids tk1 tc1 tk2 matched dist2
                            (argsort_fl dist2) (replicate (length xy1) 0, loc, pid)"
  have ne: "tk1 \<noteq> []" "tk2 \<noteq> []" and out: "snd res = (loc', pid')"
    using run
    unfolding assign_cluster_def Let_def pi2_def[symmetric] xy1_def[symmetric] xy2_def[symmetric]
      tk1_def[symmetric] tc1_def[symmetric] tk2_def[symmetric] d_def[symmetric]
      matched_def[symmetric] dist2_def[symmetric] ids_def[symmetric] res_def
    by (auto split: if_splits)
  have len_d: "length d = length tk1" by (simp add: d_def tk1_def length_dist2_matrix)
  have "P res"
    unfolding res_def
  proof (rule assign_loop_invariant)
    show "P (replicate (length xy1) 0, loc, pid)" using P0 by (simp add: xy1_def)
  next
    fix p st assume p: "p \<in> set (argsort_fl dist2)" and st: "P st"
    have p_lt: "p < length tk1" using p by (simp add: set_argsort_fl dist2_def len_d)
    then have k1: "tk1 ! p \<in> set tk1" by simp
    have "d ! p \<in> set d" using p_lt len_d by simp
    then have "length (d ! p) = length tk2"
      unfolding d_def tk2_def by (rule length_dist2_row)
    moreover from this have "d ! p \<noteq> []" using ne(2) by auto
    ultimately have "argmin_fl (d ! p) < length tk2" using argmin_fl_less[of "d ! p"] by simp
    then have "tk2 ! (matched ! p) \<in> set tk2"
      using p_lt len_d by (simp add: matched_def)
    then show "P (assign_triangle pi1 location ids (tk1 ! p) (tk2 ! (matched ! p)) st)"
      using step[of "tk1 ! p" "tk2 ! (matched ! p)" st] k1 st
      unfolding tk1_def tk2_def xy1_def xy2_def pi2_def ids_def by blast
  qed
  then show ?thesis using out by (cases res) auto
qed

lemma load_metrology_cache_ok:
  assumes "load_metrology input_tx s = Inr s1" "cache_ok s"
  shows "cache_ok s1 \<and> spots s1 = spots s \<and>
         (\<exists>pinholes. metrology_pinholes_table s1 = Some pinholes \<and>
            (\<forall>r \<in> set pinholes. m_PINHOLE_ID r > 0) \<and>
            metrology_fiducials_table s1 = Some (filter (\<lambda>r. m_PINHOLE_ID r = 4) pinholes))"
  using assms
  by (auto simp: load_metrology_def cache_ok_def Let_def list_all_iff metrology_row.defs
           pinhole_row.defs split: if_splits option.splits)

lemma pi2_rows:
  assumes "b < length (filter (\<lambda>i. m_LOCATION (pinholes ! i) = location) [0..<length pinholes])"
  shows "pinholes ! (filter (\<lambda>i. m_LOCATION (pinholes ! i) = location) [0..<length pinholes] ! b)
         \<in> set pinholes"
proof -
  let ?pi2 = "filter (\<lambda>i. m_LOCATION (pinholes ! i) = location) [0..<length pinholes]"
  have "?pi2 ! b \<in> set ?pi2" using assms by (rule nth_mem)
  then have "?pi2 ! b < length pinholes" by simp
  then show ?thesis by simp
qed

lemma assign_cluster_paired:
  assumes run: "assign_cluster xy pinholes pi1 location (loc, pid) = Inr (loc', pid')"
    and loc0: "location \<noteq> 0"
    and pos: "\<forall>r \<in> set pinholes. m_PINHOLE_ID r > 0"
    and len: "length loc = n" "length pid = n"
    and inv: "\<forall>j<n. (loc ! j \<noteq> 0) = (pid ! j \<noteq> 0)"
  shows "length loc' = n \<and> length pid' = n \<and> (\<forall>j<n. (loc' ! j \<noteq> 0) = (pid' ! j \<noteq> 0))"
proof -
  define P where "P = (\<lambda>st :: int list \<times> int list \<times> int list.
     case st of (pin, l, p) \<Rightarrow> length pin = length pi1 \<and> length l = n \<and> length p = n \<and>
        (\<forall>j<n. (l ! j \<noteq> 0) = (p ! j \<noteq> 0)))"
  let ?pi2 = "filter (\<lambda>i. m_LOCATION (pinholes ! i) = location) [0..<length pinholes]"
  let ?ids = "map (\<lambda>i. m_PINHOLE_ID (pinholes ! i)) ?pi2"
  have "\<exists>pin. P (pin, loc', pid')"
  proof (rule assign_cluster_invariant[OF run])
    show "P (replicate (length pi1) 0, loc, pid)" using len inv by (simp add: P_def)
  next
    fix k1 k2 st
    assume k1: "k1 \<in> set (fst (compute_triangles (map (\<lambda>i. xy ! i) pi1)))"
      and k2: "k2 \<in> set (fst (compute_triangles (map (\<lambda>i. m_PIX (pinholes ! i)) ?pi2)))"
      and st: "P st"
    obtain pin l p where st_eq: "st = (pin, l, p)" by (cases st)
    obtain pin' l' p' where res: "assign_triangle pi1 location ?ids k1 k2 (pin, l, p) = (pin', l', p')"
      by (cases "assign_triangle pi1 location ?ids k1 k2 (pin, l, p)")
    have k1f: "length k1 = 3" "\<forall>a \<in> set k1. a < length pi1"
      using compute_triangles_indices[OF k1] by auto
    have k2f: "length k2 = 3" "\<forall>b \<in> set k2. b < length ?pi2"
      using compute_triangles_indices[OF k2] by auto
    have stf: "length pin = length pi1" "length l = n" "length p = n"
        "\<forall>j<n. (l ! j \<noteq> 0) = (p ! j \<noteq> 0)"
      using st by (auto simp: P_def st_eq)
    have written: "pin' ! a > 0" if "a \<in> set k1" for a
    proof -
      have "pin' ! a \<in> (\<lambda>b. ?ids ! b) ` set k2"
        using assign_triangle_pin[OF res that] k1f k2f stf(1) that by simp
      then obtain b where b: "b \<in> set k2" "pin' ! a = ?ids ! b" by auto
      then have "b < length ?pi2" using k2f by simp
      then show ?thesis using b(2) pi2_rows[of b pinholes location] pos by simp
    qed
    have "(l' ! j \<noteq> 0) = (p' ! j \<noteq> 0)" if "j < n" for j
    proof (cases "j \<in> (\<lambda>a. pi1 ! a) ` set k1")
      case True
      then have "l' ! j = location" using assign_triangle_loc[OF res, of j] that stf by simp
      moreover have "p' ! j \<in> (\<lambda>a. pin' ! a) ` set k1"
        using assign_triangle_pid[OF res, of j] True that stf by simp
      then have "p' ! j > 0" using written by auto
      ultimately show ?thesis using loc0 by simp
    next
      case False
      then show ?thesis
        using assign_triangle_loc[OF res, of j] assign_triangle_pid[OF res, of j] that stf by simp
    qed
    then show "P (assign_triangle pi1 location ?ids k1 k2 st)"
      using assign_triangle_lengths[OF res] stf res by (simp add: P_def st_eq)
  qed
  then show ?thesis by (auto simp: P_def)
qed

lemma pairs_loop_invariant:
  assumes "pairs_loop sep xy pinholes fiducials ps cols = (None, cols')"
    and "Q cols"
    and "\<And>i1 i2 c c'. (i1, i2) \<in> set ps \<Longrightarrow> Q c \<Longrightarrow>
           assign_cluster xy pinholes (cluster_spots sep (measured_spots sep xy ! i1))
             (m_LOCATION (fiducials ! i2)) c = Inr c' \<Longrightarrow> Q c'"
  shows "Q cols'"
  using assms
proof (induction ps arbitrary: cols)
  case Nil
  then show ?case by simp
next
  case (Cons e ps)
  obtain i1 i2 where e: "e = (i1, i2)" by (cases e)
  show ?case
  proof (cases "assign_cluster xy pinholes (cluster_spots sep (measured_spots sep xy ! i1))
             (m_LOCATION (fiducials ! i2)) cols")
    case (Inl err)
    then show ?thesis using Cons.prems(1) e by (simp add: Let_def)
  next
    case (Inr c1)
    then have "Q c1" using Cons.prems(3)[of i1 i2 cols c1] Cons.prems(2) e by simp
    moreover have "pairs_loop sep xy pinholes fiducials ps c1 = (None, cols')"
      using Cons.prems(1) e Inr by (simp add: Let_def)
    ultimately show ?thesis using Cons.IH[of c1] Cons.prems(3) by (metis list.set_intros(2))
  qed
qed

section \<open>The pairing of the identity columns\<close>

lemma findfiducials_InrE:
  assumes "findfiducials input_tx sep s = (Inr sp, s')"
  obtains s1 pinholes fiducials q ps loc' pid' where
    "load_metrology input_tx s = Inr s1"
    "metrology_pinholes_table s1 = Some pinholes"
    "metrology_fiducials_table s1 = Some fiducials"
    "match_fiducials (map (\<lambda>i. XPIX_YPIX (spots s1) ! i)
        (fiducials_candidates sep (XPIX_YPIX (spots s1)))) (map m_PIX fiducials) = Inr q"
    "matched_pairs (fiducials_candidates sep (XPIX_YPIX (spots s1))) q = Inr ps"
    "pairs_loop sep (XPIX_YPIX (spots s1)) pinholes fiducials ps
       (column_or_zeros (length (XPIX_YPIX (spots s1))) (LOCATION (spots s1)),
        column_or_zeros (length (XPIX_YPIX (spots s1))) (PINHOLE_ID (spots s1)))
     = (None, (loc', pid'))"
    "sp = (spots s1)\<lparr>LOCATION := Some loc', PINHOLE_ID := Some pid'\<rparr>"
    "s' = s1\<lparr>spots := sp\<rparr>"
  using assms
  unfolding findfiducials_def Let_def
  by (auto split: sum.splits option.splits prod.splits) (metis prod.collapse)

lemma length_rematch:
  "rematch cand (m, q) = Inr (m', q') \<Longrightarrow> length m = length q
   \<Longrightarrow> length m' = length m \<and> length q' = length m"
  by (auto simp: rematch_def Let_def split: if_splits)

lemma length_match_fiducials:
  assumes "match_fiducials cand m = Inr q"
  shows "length q = length m"
proof -
  from assms obtain m1 q1 where r1: "rematch cand (m, map (kd_query1 cand) m) = Inr (m1, q1)"
    by (auto simp: match_fiducials_def split: sum.splits)
  with assms obtain m2 where r2: "rematch cand (m1, q1) = Inr (m2, q)"
    by (auto simp: match_fiducials_def split: sum.splits)
  have "length m1 = length m \<and> length q1 = length m" using length_rematch[OF r1] by simp
  then show ?thesis using length_rematch[OF r2] by simp
qed

lemma matched_pairs_facts:
  assumes "matched_pairs candidates q = Inr ps" "(i1, i2) \<in> set ps"
  shows "i2 < length q" "i1 \<in> set candidates" "i1 = candidates ! snd (q ! i2)"
proof -
  have ok: "\<forall>e \<in> set q. snd e < length candidates"
    and ps: "ps = zip (map (\<lambda>j. candidates ! snd (q ! j)) (selection_of q)) (selection_of q)"
    using assms(1) by (auto simp: matched_pairs_def Let_def list_ex_iff not_le split: if_splits)
  have "i2 \<in> set (selection_of q)" and i1: "i1 = candidates ! snd (q ! i2)"
    using assms(2) unfolding ps by (auto simp: zip_map1 zip_same)
  then show "i2 < length q" by (simp add: selection_of_def)
  then have "snd (q ! i2) < length candidates" using ok by simp
  then show "i1 \<in> set candidates" using i1 by simp
  show "i1 = candidates ! snd (q ! i2)" by (rule i1)
qed

lemma column_or_zeros_zero: "column_zero n col \<Longrightarrow> column_or_zeros n col = replicate n 0"
  by (auto simp: column_zero_def column_or_zeros_def)

text \<open>
  Claim C10, as the code has it. When the two identity columns are absent or all zero on
  entry and no fiducial of the metrology has \<open>LOCATION\<close> 0, then after \<open>findfiducials\<close> has
  returned every spot has \<open>LOCATION \<noteq> 0\<close> exactly when it has \<open>PINHOLE_ID \<noteq> 0\<close>: an accepted
  triangle sets both, the ids written are positive, and the location written is that of
  the matched fiducial.
\<close>

theorem identity_pairing:
  assumes run: "findfiducials input_tx separation s = (Inr sp, s')"
    and ok: "cache_ok s"
    and zero: "column_zero (length (XPIX_YPIX (spots s))) (LOCATION (spots s))"
              "column_zero (length (XPIX_YPIX (spots s))) (PINHOLE_ID (spots s))"
    and fid: "metrology_fiducials_table s' = Some fiducials"
    and nz: "\<forall>r \<in> set fiducials. m_LOCATION r \<noteq> 0"
  shows "\<exists>loc pid. LOCATION sp = Some loc \<and> PINHOLE_ID sp = Some pid \<and>
           length loc = length (XPIX_YPIX sp) \<and> length pid = length (XPIX_YPIX sp) \<and>
           (\<forall>j < length (XPIX_YPIX sp). (loc ! j \<noteq> 0) = (pid ! j \<noteq> 0))"
proof -
  from run obtain s1 pinholes fiducials' q ps loc' pid' where
    load: "load_metrology input_tx s = Inr s1"
    and pin: "metrology_pinholes_table s1 = Some pinholes"
    and fid': "metrology_fiducials_table s1 = Some fiducials'"
    and mf: "match_fiducials (map (\<lambda>i. XPIX_YPIX (spots s1) ! i)
        (fiducials_candidates separation (XPIX_YPIX (spots s1)))) (map m_PIX fiducials') = Inr q"
    and mp: "matched_pairs (fiducials_candidates separation (XPIX_YPIX (spots s1))) q = Inr ps"
    and loop: "pairs_loop separation (XPIX_YPIX (spots s1)) pinholes fiducials' ps
       (column_or_zeros (length (XPIX_YPIX (spots s1))) (LOCATION (spots s1)),
        column_or_zeros (length (XPIX_YPIX (spots s1))) (PINHOLE_ID (spots s1)))
     = (None, (loc', pid'))"
    and sp: "sp = (spots s1)\<lparr>LOCATION := Some loc', PINHOLE_ID := Some pid'\<rparr>"
    and s': "s' = s1\<lparr>spots := sp\<rparr>"
    by (rule findfiducials_InrE)
  define n where "n = length (XPIX_YPIX (spots s))"
  have same: "spots s1 = spots s" and pos: "\<forall>r \<in> set pinholes. m_PINHOLE_ID r > 0"
    using load_metrology_cache_ok[OF load ok] pin by auto
  have fids: "fiducials' = fiducials" using fid fid' s' by simp
  have lenq: "length q = length fiducials" using length_match_fiducials[OF mf] fids by simp
  define Q where "Q = (\<lambda>c :: int list \<times> int list. length (fst c) = n \<and> length (snd c) = n \<and>
                          (\<forall>j<n. (fst c ! j \<noteq> 0) = (snd c ! j \<noteq> 0)))"
  have "Q (loc', pid')"
  proof (rule pairs_loop_invariant[OF loop])
    show "Q (column_or_zeros (length (XPIX_YPIX (spots s1))) (LOCATION (spots s1)),
             column_or_zeros (length (XPIX_YPIX (spots s1))) (PINHOLE_ID (spots s1)))"
      using zero by (simp add: Q_def same column_or_zeros_zero n_def)
  next
    fix i1 i2 c c'
    assume mem: "(i1, i2) \<in> set ps" and Qc: "Q c"
      and ac: "assign_cluster (XPIX_YPIX (spots s1)) pinholes
                 (cluster_spots separation (measured_spots separation (XPIX_YPIX (spots s1)) ! i1))
                 (m_LOCATION (fiducials' ! i2)) c = Inr c'"
    have "i2 < length fiducials" using matched_pairs_facts(1)[OF mp mem] lenq by simp
    then have "m_LOCATION (fiducials' ! i2) \<noteq> 0" using nz fids by simp
    then show "Q c'"
      using assign_cluster_paired[of "XPIX_YPIX (spots s1)" pinholes _ _ "fst c" "snd c"
                "fst c'" "snd c'" n] ac Qc pos
      by (simp add: Q_def)
  qed
  then show ?thesis using sp same by (simp add: Q_def n_def)
qed

section \<open>The cap on the cluster size\<close>

lemma assign_cluster_loc:
  assumes run: "assign_cluster xy pinholes pi1 location (loc, pid) = Inr (loc', pid')"
  shows "length loc' = length loc \<and> (\<forall>j. loc' ! j = loc ! j \<or> (loc' ! j = location \<and> j \<in> set pi1))"
proof -
  define P where "P = (\<lambda>st :: int list \<times> int list \<times> int list.
     case st of (pin, l, p) \<Rightarrow> length l = length loc \<and>
        (\<forall>j. l ! j = loc ! j \<or> (l ! j = location \<and> j \<in> set pi1)))"
  let ?pi2 = "filter (\<lambda>i. m_LOCATION (pinholes ! i) = location) [0..<length pinholes]"
  let ?ids = "map (\<lambda>i. m_PINHOLE_ID (pinholes ! i)) ?pi2"
  have "\<exists>pin. P (pin, loc', pid')"
  proof (rule assign_cluster_invariant[OF run])
    show "P (replicate (length pi1) 0, loc, pid)" by (simp add: P_def)
  next
    fix k1 k2 st
    assume k1: "k1 \<in> set (fst (compute_triangles (map (\<lambda>i. xy ! i) pi1)))" and st: "P st"
    obtain pin l p where st_eq: "st = (pin, l, p)" by (cases st)
    obtain pin' l' p' where res: "assign_triangle pi1 location ?ids k1 k2 (pin, l, p) = (pin', l', p')"
      by (cases "assign_triangle pi1 location ?ids k1 k2 (pin, l, p)")
    have k1f: "\<forall>a \<in> set k1. a < length pi1"
      using compute_triangles_indices[OF k1] by auto
    have stf: "length l = length loc" "\<forall>j. l ! j = loc ! j \<or> (l ! j = location \<and> j \<in> set pi1)"
      using st by (auto simp: P_def st_eq)
    have "l' ! j = loc ! j \<or> (l' ! j = location \<and> j \<in> set pi1)" for j
    proof (cases "j \<in> (\<lambda>a. pi1 ! a) ` set k1 \<and> j < length l")
      case True
      then have "j \<in> set pi1" using k1f by auto
      then show ?thesis using assign_triangle_loc[OF res, of j] True by simp
    next
      case False
      then show ?thesis using assign_triangle_loc[OF res, of j] stf(2) by auto
    qed
    then show "P (assign_triangle pi1 location ?ids k1 k2 st)"
      using assign_triangle_lengths[OF res] stf(1) res by (simp add: P_def st_eq)
  qed
  then show ?thesis by (auto simp: P_def)
qed

lemma pairs_loop_loc:
  assumes "pairs_loop sep xy pinholes fiducials ps (loc, pid) = (r, (loc', pid'))"
  shows "length loc' = length loc \<and>
         (\<forall>j. loc' ! j = L \<longrightarrow> loc ! j = L \<or>
               (\<exists>e \<in> set ps. m_LOCATION (fiducials ! snd e) = L \<and>
                   j \<in> set (cluster_spots sep (measured_spots sep xy ! fst e))))"
  using assms
proof (induction ps arbitrary: loc pid)
  case Nil
  then show ?case by simp
next
  case (Cons e ps)
  obtain i1 i2 where e: "e = (i1, i2)" by (cases e)
  let ?pi1 = "cluster_spots sep (measured_spots sep xy ! i1)"
  show ?case
  proof (cases "assign_cluster xy pinholes ?pi1 (m_LOCATION (fiducials ! i2)) (loc, pid)")
    case (Inl err)
    then show ?thesis using Cons.prems e by (simp add: Let_def)
  next
    case (Inr c1)
    obtain loc1 pid1 where c1: "c1 = (loc1, pid1)" by (cases c1)
    have rest: "pairs_loop sep xy pinholes fiducials ps (loc1, pid1) = (r, (loc', pid'))"
      using Cons.prems e Inr c1 by (simp add: Let_def)
    have a: "length loc1 = length loc"
        "\<forall>j. loc1 ! j = loc ! j \<or> (loc1 ! j = m_LOCATION (fiducials ! i2) \<and> j \<in> set ?pi1)"
      using assign_cluster_loc[of xy pinholes ?pi1 _ loc pid loc1 pid1] Inr c1 by auto
    have b: "length loc' = length loc1"
      "\<forall>j. loc' ! j = L \<longrightarrow> loc1 ! j = L \<or>
               (\<exists>e \<in> set ps. m_LOCATION (fiducials ! snd e) = L \<and>
                   j \<in> set (cluster_spots sep (measured_spots sep xy ! fst e)))"
      using Cons.IH[OF rest] by auto
    show ?thesis
    proof (intro conjI allI impI)
      show "length loc' = length loc" using a(1) b(1) by simp
    next
      fix j assume "loc' ! j = L"
      then consider "loc1 ! j = L" | "\<exists>e \<in> set ps. m_LOCATION (fiducials ! snd e) = L \<and>
                   j \<in> set (cluster_spots sep (measured_spots sep xy ! fst e))"
        using b(2) by blast
      then show "loc ! j = L \<or> (\<exists>e\<in>set (e # ps). m_LOCATION (fiducials ! snd e) = L \<and>
                   j \<in> set (cluster_spots sep (measured_spots sep xy ! fst e)))"
      proof cases
        case 1
        then show ?thesis using a(2) e by (metis fst_conv snd_conv list.set_intros(1))
      next
        case 2
        then show ?thesis by auto
      qed
    qed
  qed
qed

lemma filter_const_distinct_le1:
  assumes "distinct (map f xs)" "\<forall>x \<in> set xs. f x = c"
  shows "length xs \<le> 1"
proof (cases xs)
  case Nil
  then show ?thesis by simp
next
  case (Cons x ys)
  show ?thesis
  proof (cases ys)
    case Nil
    then show ?thesis using Cons by simp
  next
    case (Cons y zs)
    then show ?thesis using assms \<open>xs = x # ys\<close> by auto
  qed
qed

lemma unique_centre:
  assumes d: "distinct (map m_PINHOLE_ID (filter (\<lambda>r. m_LOCATION r = L) pinholes))"
    and i: "i < length (filter (\<lambda>r. m_PINHOLE_ID r = 4) pinholes)"
           "m_LOCATION (filter (\<lambda>r. m_PINHOLE_ID r = 4) pinholes ! i) = L"
    and j: "j < length (filter (\<lambda>r. m_PINHOLE_ID r = 4) pinholes)"
           "m_LOCATION (filter (\<lambda>r. m_PINHOLE_ID r = 4) pinholes ! j) = L"
  shows "i = j"
proof (rule ccontr)
  assume ne: "i \<noteq> j"
  let ?fid = "filter (\<lambda>r. m_PINHOLE_ID r = 4) pinholes"
  let ?F = "filter (\<lambda>r. m_LOCATION r = L) ?fid"
  have eq: "?F = filter (\<lambda>r. m_PINHOLE_ID r = 4) (filter (\<lambda>r. m_LOCATION r = L) pinholes)"
    by (simp add: conj_commute)
  have "distinct (map m_PINHOLE_ID ?F)" unfolding eq using d by (rule distinct_map_filter)
  moreover have "\<forall>x \<in> set ?F. m_PINHOLE_ID x = 4" by simp
  ultimately have le: "length ?F \<le> 1" by (rule filter_const_distinct_le1)
  have "{i, j} \<subseteq> {k. k < length ?fid \<and> m_LOCATION (?fid ! k) = L}" using i j by simp
  then have "card {i, j} \<le> card {k. k < length ?fid \<and> m_LOCATION (?fid ! k) = L}"
    by (intro card_mono) auto
  moreover have "card {i, j} = 2" using ne by simp
  moreover have "length ?F = card {k. k < length ?fid \<and> m_LOCATION (?fid ! k) = L}"
    by (rule length_filter_conv_card)
  ultimately show False using le by linarith
qed

lemma candidates_less: "i \<in> set (fiducials_candidates sep xy) \<Longrightarrow> i < length xy"
  by (simp add: fiducials_candidates_def)

text \<open>
  Claim C9. The measured spots of a matched pair are those of the 4 nearest neighbours of the
  candidate that are within \<open>separation\<close>, so at most 4. Hence in a call on a table in which
  no spot carries the location \<open>L\<close> yet, at most 4 spots carry it afterwards, and a fiducial
  \<open>L\<close> with more than 4 pinholes (of pairwise different ids) has a pinhole whose id no spot
  of that location carries.
\<close>

theorem cluster_cap:
  assumes run: "findfiducials input_tx separation s = (Inr sp, s')"
    and ok: "cache_ok s"
    and cols: "LOCATION sp = Some loc" "PINHOLE_ID sp = Some pid"
    and tab: "metrology_pinholes_table s' = Some pinholes"
    and ids: "distinct (map m_PINHOLE_ID (filter (\<lambda>r. m_LOCATION r = L) pinholes))"
    and fresh: "L \<notin> set (column_or_zeros (length (XPIX_YPIX (spots s))) (LOCATION (spots s)))"
  shows "(\<forall>i < length (XPIX_YPIX sp).
            length (cluster_spots separation (measured_spots separation (XPIX_YPIX sp) ! i)) \<le> 4) \<and>
         card {j. j < length loc \<and> loc ! j = L} \<le> 4 \<and>
         (4 < length (filter (\<lambda>r. m_LOCATION r = L) pinholes) \<longrightarrow>
            (\<exists>r \<in> set pinholes. m_LOCATION r = L \<and>
               \<not> (\<exists>j < length loc. loc ! j = L \<and> pid ! j = m_PINHOLE_ID r)))"
proof -
  from run obtain s1 pinholes' fiducials q ps loc' pid' where
    load: "load_metrology input_tx s = Inr s1"
    and pin: "metrology_pinholes_table s1 = Some pinholes'"
    and fid: "metrology_fiducials_table s1 = Some fiducials"
    and mf: "match_fiducials (map (\<lambda>i. XPIX_YPIX (spots s1) ! i)
        (fiducials_candidates separation (XPIX_YPIX (spots s1)))) (map m_PIX fiducials) = Inr q"
    and mp: "matched_pairs (fiducials_candidates separation (XPIX_YPIX (spots s1))) q = Inr ps"
    and loop: "pairs_loop separation (XPIX_YPIX (spots s1)) pinholes' fiducials ps
       (column_or_zeros (length (XPIX_YPIX (spots s1))) (LOCATION (spots s1)),
        column_or_zeros (length (XPIX_YPIX (spots s1))) (PINHOLE_ID (spots s1)))
     = (None, (loc', pid'))"
    and sp: "sp = (spots s1)\<lparr>LOCATION := Some loc', PINHOLE_ID := Some pid'\<rparr>"
    and s': "s' = s1\<lparr>spots := sp\<rparr>"
    by (rule findfiducials_InrE)
  let ?xy = "XPIX_YPIX (spots s1)"
  let ?loc0 = "column_or_zeros (length ?xy) (LOCATION (spots s1))"
  let ?pi1 = "\<lambda>i1. cluster_spots separation (measured_spots separation ?xy ! i1)"
  let ?S = "{j. j < length loc \<and> loc ! j = L}"
  let ?pi1' = "\<lambda>i1. cluster_spots separation (measured_spots separation (XPIX_YPIX sp) ! i1)"
  have same: "spots s1 = spots s"
    and fids: "fiducials = filter (\<lambda>r. m_PINHOLE_ID r = 4) pinholes'"
    using load_metrology_cache_ok[OF load ok] pin fid by auto
  have pins: "pinholes' = pinholes" using tab pin s' by simp
  have locs: "loc' = loc" "pid' = pid" using cols sp by simp_all
  have xy: "XPIX_YPIX sp = ?xy" using sp by simp
  have lenq: "length q = length fiducials" using length_match_fiducials[OF mf] by simp
  have part1: "\<forall>i < length (XPIX_YPIX sp). length (?pi1 i) \<le> 4"
    using length_cluster_spots[of _ ?xy separation] xy by simp
  have trace: "length loc = length ?loc0"
      "\<And>j. loc ! j = L \<Longrightarrow> ?loc0 ! j = L \<or>
               (\<exists>e \<in> set ps. m_LOCATION (fiducials ! snd e) = L \<and> j \<in> set (?pi1 (fst e)))"
    using pairs_loop_loc[OF loop, of L] locs by auto
  have from_pair: "\<exists>e \<in> set ps. m_LOCATION (fiducials ! snd e) = L \<and> j \<in> set (?pi1 (fst e))"
    if "j \<in> ?S" for j
  proof -
    have "j < length ?loc0" "loc ! j = L" using that trace(1) by auto
    moreover have "?loc0 ! j \<noteq> L" using fresh same \<open>j < length ?loc0\<close> by (metis nth_mem)
    ultimately show ?thesis using trace(2)[of j] by blast
  qed
  have one: "fst e = fst e'"
    if "e \<in> set ps" "m_LOCATION (fiducials ! snd e) = L"
       "e' \<in> set ps" "m_LOCATION (fiducials ! snd e') = L" for e e'
  proof -
    have e: "(fst e, snd e) \<in> set ps" "(fst e', snd e') \<in> set ps" using that by simp_all
    have "snd e < length fiducials" "snd e' < length fiducials"
      using matched_pairs_facts(1)[OF mp e(1)] matched_pairs_facts(1)[OF mp e(2)] lenq by simp_all
    then have "snd e = snd e'"
      using unique_centre[of L pinholes "snd e" "snd e'"] ids that(2,4) fids pins by simp
    then show ?thesis
      using matched_pairs_facts(3)[OF mp e(1)] matched_pairs_facts(3)[OF mp e(2)] by simp
  qed
  have part2: "card ?S \<le> 4"
  proof (cases "?S = {}")
    case True
    then show ?thesis by (simp only: card.empty)
  next
    case False
    then obtain j0 where "j0 \<in> ?S" by blast
    then obtain e0 where e0: "e0 \<in> set ps" "m_LOCATION (fiducials ! snd e0) = L"
      using from_pair by blast
    have "?S \<subseteq> set (?pi1 (fst e0))"
    proof
      fix j assume "j \<in> ?S"
      then obtain e where "e \<in> set ps" "m_LOCATION (fiducials ! snd e) = L"
          "j \<in> set (?pi1 (fst e))"
        using from_pair by blast
      then show "j \<in> set (?pi1 (fst e0))" using one[of e e0] e0 by simp
    qed
    then have "card ?S \<le> card (set (?pi1 (fst e0)))" by (intro card_mono) auto
    also have "\<dots> \<le> length (?pi1 (fst e0))" by (rule card_length)
    also have "\<dots> \<le> 4"
    proof -
      have "(fst e0, snd e0) \<in> set ps" using e0(1) by simp
      then have "fst e0 < length ?xy"
        using matched_pairs_facts(2)[OF mp] candidates_less by blast
      then show ?thesis by (rule length_cluster_spots)
    qed
    finally show ?thesis .
  qed
  have part3: "\<exists>r \<in> set pinholes. m_LOCATION r = L \<and>
               \<not> (\<exists>j < length loc. loc ! j = L \<and> pid ! j = m_PINHOLE_ID r)"
    if many: "4 < length (filter (\<lambda>r. m_LOCATION r = L) pinholes)"
  proof (rule ccontr)
    assume "\<not> ?thesis"
    then have all: "\<And>r. r \<in> set pinholes \<Longrightarrow> m_LOCATION r = L \<Longrightarrow>
                      \<exists>j < length loc. loc ! j = L \<and> pid ! j = m_PINHOLE_ID r" by blast
    let ?F = "filter (\<lambda>r. m_LOCATION r = L) pinholes"
    have "m_PINHOLE_ID ` set ?F \<subseteq> (\<lambda>j. pid ! j) ` ?S"
    proof
      fix v assume "v \<in> m_PINHOLE_ID ` set ?F"
      then obtain r where r: "r \<in> set pinholes" "m_LOCATION r = L" "v = m_PINHOLE_ID r" by auto
      from all[OF r(1,2)] obtain j where j: "j < length loc" "loc ! j = L" "pid ! j = m_PINHOLE_ID r"
        by blast
      then have "j \<in> ?S" by simp
      then show "v \<in> (\<lambda>j. pid ! j) ` ?S" using r(3) j(3) by (simp add: image_iff) metis
    qed
    then have "card (m_PINHOLE_ID ` set ?F) \<le> card ((\<lambda>j. pid ! j) ` ?S)"
      by (intro card_mono) auto
    also have "\<dots> \<le> card ?S" by (intro card_image_le) simp
    finally have "card (m_PINHOLE_ID ` set ?F) \<le> 4" using part2 by simp
    moreover have "card (m_PINHOLE_ID ` set ?F) = length ?F"
      using ids distinct_card[of "map m_PINHOLE_ID ?F"] by simp
    ultimately show False using many by simp
  qed
  show ?thesis
  proof (intro conjI impI)
    show "\<forall>i < length (XPIX_YPIX sp). length (?pi1' i) \<le> 4"
      using part1 xy by simp
    show "card ?S \<le> 4" by (rule part2)
    show "\<exists>r \<in> set pinholes. m_LOCATION r = L \<and>
               \<not> (\<exists>j < length loc. loc ! j = L \<and> pid ! j = m_PINHOLE_ID r)"
      if "4 < length (filter (\<lambda>r. m_LOCATION r = L) pinholes)"
      using that by (rule part3)
  qed
qed

section \<open>The end-to-end example\<close>

lemma upt_Suc4: "[0..<Suc (Suc (Suc (Suc 0)))] = [0, 1, 2, 3]" by (simp add: upt_rec)
lemma upt_Suc_1_4: "[Suc 0..<Suc (Suc (Suc (Suc 0)))] = [1, 2, 3]" by (simp add: upt_rec)

lemma triples_Suc4: "triples (Suc (Suc (Suc (Suc 0)))) = [(0, 1, 2), (0, 1, 3), (0, 2, 3), (1, 2, 3)]"
  using triples4 by (simp add: eval_nat_numeral)

lemma square_load:
  "load_metrology identity_transform (square_state L)
   = Inr ((square_state L)\<lparr>metrology_pinholes_table := Some (square_pinholes L),
                            metrology_fiducials_table := Some [square_centre L]\<rparr>)"
  by (simp add: load_metrology_def square_state_def square_metrology_def identity_transform_def
      metrology_row.defs pinhole_row.defs)

lemma sqrt2_less_7: "sqrt 2 < 7"
  by (simp add: sqrt_less_iff)

lemma square_measured:
  "measured_spots 7 square_spots =
     [[(Fin 0, 0), (Fin 1, 1), (Fin 1, 2), (Fin (sqrt 2), 3)],
      [(Fin 0, 1), (Fin 1, 0), (Fin 1, 3), (Fin (sqrt 2), 2)],
      [(Fin 0, 2), (Fin 1, 0), (Fin 1, 3), (Fin (sqrt 2), 1)],
      [(Fin 0, 3), (Fin 1, 1), (Fin 1, 2), (Fin (sqrt 2), 0)]]"
  by (simp add: measured_spots_def kd_query_def upt_Suc4 distance_def sqdist_def
      sqrt2_less_7 Let_def)

lemma square_candidates: "fiducials_candidates 7 square_spots = [0, 1, 2, 3]"
  by (simp add: fiducials_candidates_def square_measured number_of_neighbors_def sqrt2_less_7
      upt_Suc4)

lemma square_query_far: "kd_query1 square_spots (0, 0) = (Fin (sqrt 12500), 0)"
  by (simp add: kd_query1_def kd_query_def upt_Suc4 distance_def sqdist_def Let_def)

lemma square_query_near: "kd_query1 square_spots (100, 50) = (Fin 0, 0)"
  by (simp add: kd_query1_def kd_query_def upt_Suc4 distance_def sqdist_def Let_def)

lemma median1: "median [a] = a"
  by (simp add: median_def)

lemma square_rematch1:
  "rematch square_spots ([(0, 0)], [(Fin (sqrt 12500), 0)]) = Inr ([(100, 50)], [(Fin 0, 0)])"
  by (simp add: rematch_def median1 square_query_near)

lemma square_rematch2:
  "rematch square_spots ([(100, 50)], [(Fin 0, 0)]) = Inr ([(100, 50)], [(Fin 0, 0)])"
  by (simp add: rematch_def median1 square_query_near)

lemma square_match: "match_fiducials square_spots [(0, 0)] = Inr [(Fin 0, 0)]"
  by (simp add: match_fiducials_def square_query_far square_rematch1 square_rematch2)

lemma square_pairs: "matched_pairs [0, Suc 0, 2, 3] [(Fin 0, 0)] = Inr [(0, 0)]"
  by (simp add: matched_pairs_def selection_of_def maxdistance_def)

lemma square_cluster: "cluster_spots 7 (measured_spots 7 square_spots ! 0) = [0, 1, 2, 3]"
  by (simp add: square_measured cluster_spots_def sqrt2_less_7)

lemma square_triangles:
  "compute_triangles unit_square =
     ([[1, 0, 2], [0, 1, 3], [0, 2, 3], [2, 3, 1]],
      [Fin (sqrt 2), Fin (sqrt 2), Fin (sqrt 2), Fin (sqrt 2)],
      [Fin (1 / sqrt 2), Fin (1 / sqrt 2), Fin (1 / sqrt 2), Fin (1 / sqrt 2)])"
  by (simp add: compute_triangles_def triples_Suc4 triangle_unfold sqdist_def
      vertex_cos_def fdiv_def Let_def)

lemma square_spots_triangles:
  "compute_triangles square_spots = compute_triangles unit_square"
  by (simp add: compute_triangles_def triples_Suc4
      triangle_unfold sqdist_def vertex_cos_def fdiv_def Let_def)

lemma square_features:
  "features unit_square =
     [(Fin (sqrt 2), Fin (1 / sqrt 2), (Fin (- 1), Fin 0)),
      (Fin (sqrt 2), Fin (1 / sqrt 2), (Fin 1, Fin 0)),
      (Fin (sqrt 2), Fin (1 / sqrt 2), (Fin 0, Fin 1)),
      (Fin (sqrt 2), Fin (1 / sqrt 2), (Fin 1, Fin 0))]"
  by (simp add: features_def square_triangles upt_Suc4 first_side_def fdiv_def)

lemma square_spots_features: "features square_spots = features unit_square"
  by (simp add: features_def square_spots_triangles square_triangles upt_Suc4 first_side_def
      fdiv_def)

lemma square_dist2:
  "dist2_matrix square_spots unit_square =
     [[Fin 0, Fin 0, Fin 1, Fin 0],
      [Fin 0, Fin 0, Fin 1, Fin 0],
      [Fin 1, Fin 1, Fin 0, Fin 1],
      [Fin 0, Fin 0, Fin 1, Fin 0]]"
  by (simp add: dist2_matrix_def square_spots_features square_features dist2_of_def
      cos12_of_def fsub_def fsq_def)

lemma not_flat: "\<not> fgt (Fin (1 / sqrt 2)) (Fin (9 / 10))"
proof -
  have "1 / sqrt 2 = sqrt (1 / 2)" by (simp add: real_sqrt_divide)
  moreover have "sqrt (1 / 2) \<le> 9 / 10"
    by (rule real_le_lsqrt) (simp_all add: power2_eq_square)
  ultimately have "1 / sqrt 2 \<le> 9 / 10" by simp
  then show ?thesis by (simp add: fgt_def)
qed

lemma not_far: "\<not> fgt (Fin 0) (Fin (1 / 1000))"
  by (simp add: fgt_def)

lemma square_ranked: "argsort_fl [Fin 0, Fin 0, Fin 0, Fin 0] = [0, 1, 2, 3]"
  by (simp add: argsort_fl_def upt_Suc4)

lemma square_assign_cluster:
  "assign_cluster square_spots (square_pinholes L) [0, Suc 0, 2, 3] L ([0, 0, 0, 0], [0, 0, 0, 0])
   = Inr ([L, L, L, L], [1, 4, 2, 2])"
  by (simp add: assign_cluster_def upt_Suc4 square_spots_triangles square_triangles square_dist2
      argmin_fl_def upt_Suc_1_4 square_ranked not_flat not_far assign_triangle_def Let_def)

lemma square_pairs_loop:
  "pairs_loop 7 square_spots (square_pinholes L) [square_centre L] [(0, 0)]
     ([0, 0, 0, 0], [0, 0, 0, 0])
   = (None, ([L, L, L, L], [1, 4, 2, 2]))"
  by (simp add: square_cluster square_assign_cluster)

lemma findfiducials_square:
  "findfiducials identity_transform 7 (square_state L) = (Inr (square_result L), square_after L)"
proof -
  have st: "spots (square_state L) = \<lparr>XPIX_YPIX = square_spots, LOCATION = None, PINHOLE_ID = None\<rparr>"
    by (simp add: square_state_def)
  show ?thesis
    unfolding findfiducials_def square_load
    by (simp add: st square_candidates square_match square_pairs
        column_or_zeros_def square_pairs_loop square_result_def square_after_def Let_def
        del: pairs_loop.simps)
qed

text \<open>
  scipy leaves the order of neighbours at equal distance open. With the two neighbours at
  distance 1 in the other order the ids are not those of the matching pinholes either.
\<close>

lemma square_assign_cluster_other_order:
  "assign_cluster square_spots (square_pinholes L) [0, 2, Suc 0, 3] L ([0, 0, 0, 0], [0, 0, 0, 0])
   = Inr ([L, L, L, L], [4, 3, 2, 3])"
proof -
  have tri: "compute_triangles [(100, 50), (100, 51), (101, 50), (101, 51)] =
     ([[1, 0, 2], [0, 1, 3], [0, 2, 3], [2, 3, 1]],
      [Fin (sqrt 2), Fin (sqrt 2), Fin (sqrt 2), Fin (sqrt 2)],
      [Fin (1 / sqrt 2), Fin (1 / sqrt 2), Fin (1 / sqrt 2), Fin (1 / sqrt 2)])"
    by (simp add: compute_triangles_def triples_Suc4 triangle_unfold sqdist_def
      vertex_cos_def fdiv_def Let_def)
  have feat: "features [(100, 50), (100, 51), (101, 50), (101, 51)] =
     [(Fin (sqrt 2), Fin (1 / sqrt 2), (Fin 0, Fin (- 1))),
      (Fin (sqrt 2), Fin (1 / sqrt 2), (Fin 0, Fin 1)),
      (Fin (sqrt 2), Fin (1 / sqrt 2), (Fin 1, Fin 0)),
      (Fin (sqrt 2), Fin (1 / sqrt 2), (Fin 0, Fin 1))]"
    by (simp add: features_def tri upt_Suc4 first_side_def fdiv_def)
  have d: "dist2_matrix [(100, 50), (100, 51), (101, 50), (101, 51)] unit_square =
     [[Fin 1, Fin 1, Fin 0, Fin 1],
      [Fin 1, Fin 1, Fin 0, Fin 1],
      [Fin 0, Fin 0, Fin 1, Fin 0],
      [Fin 1, Fin 1, Fin 0, Fin 1]]"
    by (simp add: dist2_matrix_def feat square_features dist2_of_def cos12_of_def fsub_def fsq_def)
  show ?thesis
    by (simp add: assign_cluster_def upt_Suc4 tri square_triangles d
      argmin_fl_def upt_Suc_1_4 square_ranked not_flat not_far assign_triangle_def Let_def)
qed

text \<open>
  Claim C1, as the code has it. On the square fiducial and the shifted cluster
  \<open>findfiducials\<close> returns the table with one location on all 4 spots and a
  \<open>PINHOLE_ID\<close> among 1, 2, 3, 4 on each of them.
\<close>

theorem square_identification:
  "fst (findfiducials identity_transform default_separation (square_state L))
     = Inr (square_result L) \<and>
   LOCATION (square_result L) = Some [L, L, L, L] \<and>
   (\<exists>pid. PINHOLE_ID (square_result L) = Some pid \<and> length pid = 4 \<and> set pid \<subseteq> {1, 2, 3, 4})"
  by (simp add: default_separation_def findfiducials_square square_result_def)

text \<open>
  Claim C1 as stated fails: the spots at (100, 50), (101, 50), (100, 51), (101, 51) match
  the pinholes 4, 1, 2, 3, and the ids written are 1, 4, 2, 2. The four triangles of the
  square are congruent, so every measured triangle is at distance 0 from several metrology
  triangles and the first of them is taken.
\<close>

theorem square_identification_counterexample:
  "fst (findfiducials identity_transform default_separation (square_state 1))
     = Inr (square_result 1) \<and>
   PINHOLE_ID (square_result 1) = Some [1, 4, 2, 2] \<and>
   PINHOLE_ID (square_result 1) \<noteq> Some [4, 1, 2, 3]"
  by (simp add: default_separation_def findfiducials_square square_result_def)

theorem identity_pairing_witness:
  "findfiducials identity_transform 7 (square_state 1) = (Inr (square_result 1), square_after 1) \<and>
   cache_ok (square_state 1) \<and>
   column_zero (length (XPIX_YPIX (spots (square_state 1)))) (LOCATION (spots (square_state 1))) \<and>
   column_zero (length (XPIX_YPIX (spots (square_state 1)))) (PINHOLE_ID (spots (square_state 1))) \<and>
   metrology_fiducials_table (square_after 1) = Some [square_centre 1] \<and>
   m_LOCATION (square_centre 1) \<noteq> 0 \<and>
   LOCATION (square_result 1) = Some [1, 1, 1, 1] \<and>
   PINHOLE_ID (square_result 1) = Some [1, 4, 2, 2] \<and>
   (([1, 1, 1, 1 :: int] ! 3 \<noteq> 0) = ([1, 4, 2, 2 :: int] ! 3 \<noteq> 0))"
proof -
  have h1: "findfiducials identity_transform 7 (square_state 1)
            = (Inr (square_result 1), square_after 1)"
    by (rule findfiducials_square)
  have h2: "cache_ok (square_state 1)" by (simp add: cache_ok_def square_state_def)
  have h3: "column_zero (length (XPIX_YPIX (spots (square_state 1))))
              (LOCATION (spots (square_state 1)))"
           "column_zero (length (XPIX_YPIX (spots (square_state 1))))
              (PINHOLE_ID (spots (square_state 1)))"
    by (simp_all add: column_zero_def square_state_def)
  have h4: "metrology_fiducials_table (square_after 1) = Some [square_centre 1]"
    by (simp add: square_after_def)
  have h5: "\<forall>r \<in> set [square_centre 1]. m_LOCATION r \<noteq> 0" by simp
  have cols: "LOCATION (square_result 1) = Some [1, 1, 1, 1]"
             "PINHOLE_ID (square_result 1) = Some [1, 4, 2, 2]"
             "length (XPIX_YPIX (square_result 1)) = 4"
    by (simp_all add: square_result_def)
  from identity_pairing[OF h1 h2 h3 h4 h5]
  have "([1, 1, 1, 1 :: int] ! 3 \<noteq> 0) = ([1, 4, 2, 2 :: int] ! 3 \<noteq> 0)"
    unfolding cols by auto
  then show ?thesis
    using h1 h2 h3 h4 cols by simp
qed

text \<open>
  Claim C10 as stated fails for a fiducial whose \<open>LOCATION\<close> is 0: its spots get a nonzero
  \<open>PINHOLE_ID\<close> and the \<open>LOCATION\<close> 0.
\<close>

theorem identity_pairing_counterexample:
  "column_zero 4 (LOCATION (spots (square_state 0))) \<and>
   column_zero 4 (PINHOLE_ID (spots (square_state 0))) \<and>
   fst (findfiducials identity_transform default_separation (square_state 0))
     = Inr (square_result 0) \<and>
   LOCATION (square_result 0) = Some [0, 0, 0, 0] \<and>
   PINHOLE_ID (square_result 0) = Some [1, 4, 2, 2]"
proof -
  have "column_zero 4 (LOCATION (spots (square_state 0)))"
       "column_zero 4 (PINHOLE_ID (spots (square_state 0)))"
    by (simp_all add: column_zero_def square_state_def)
  then show ?thesis
    by (simp add: default_separation_def findfiducials_square square_result_def)
qed

theorem cluster_cap_witness:
  "findfiducials identity_transform 7 (square_state 1) = (Inr (square_result 1), square_after 1) \<and>
   cache_ok (square_state 1) \<and>
   LOCATION (square_result 1) = Some [1, 1, 1, 1] \<and>
   PINHOLE_ID (square_result 1) = Some [1, 4, 2, 2] \<and>
   metrology_pinholes_table (square_after 1) = Some (square_pinholes 1) \<and>
   distinct (map m_PINHOLE_ID (filter (\<lambda>r. m_LOCATION r = 1) (square_pinholes 1))) \<and>
   1 \<notin> set (column_or_zeros (length (XPIX_YPIX (spots (square_state 1))))
              (LOCATION (spots (square_state 1)))) \<and>
   card {j. j < length [1, 1, 1, 1 :: int] \<and> [1, 1, 1, 1 :: int] ! j = 1} \<le> 4"
proof -
  have h1: "findfiducials identity_transform 7 (square_state 1)
            = (Inr (square_result 1), square_after 1)"
    by (rule findfiducials_square)
  have h2: "cache_ok (square_state 1)" by (simp add: cache_ok_def square_state_def)
  have h3: "LOCATION (square_result 1) = Some [1, 1, 1, 1]"
           "PINHOLE_ID (square_result 1) = Some [1, 4, 2, 2]"
    by (simp_all add: square_result_def)
  have h4: "metrology_pinholes_table (square_after 1) = Some (square_pinholes 1)"
    by (simp add: square_after_def)
  have h5: "distinct (map m_PINHOLE_ID (filter (\<lambda>r. m_LOCATION r = 1) (square_pinholes 1)))"
    by simp
  have h6: "1 \<notin> set (column_or_zeros (length (XPIX_YPIX (spots (square_state 1))))
              (LOCATION (spots (square_state 1))))"
    by (simp add: column_or_zeros_def square_state_def)
  show ?thesis
    using cluster_cap[OF h1 h2 h3 h4 h5 h6] h1 h2 h3 h4 h5 h6 by blast
qed

section \<open>The fiducial matcher\<close>

lemma hd_sort_key_unique_min:
  assumes "e \<in> set xs" and "\<forall>y \<in> set xs. y \<noteq> e \<longrightarrow> f e < f y"
  shows "hd (sort_key f xs) = e"
proof (rule ccontr)
  assume ne: "hd (sort_key f xs) \<noteq> e"
  let ?s = "sort_key f xs"
  have nonempty: "?s \<noteq> []" using assms(1) by (metis empty_iff list.set(1) set_sort)
  then have hd_in: "hd ?s \<in> set xs" by (metis list.set_sel(1) set_sort)
  have "e \<in> set ?s" using assms(1) by simp
  moreover have "sorted (map f ?s)" by (rule sorted_sort_key)
  ultimately have "f (hd ?s) \<le> f e"
    using nonempty by (cases ?s) auto
  moreover have "f e < f (hd ?s)" using assms(2) hd_in ne by blast
  ultimately show False by simp
qed

lemma kd_query1_nearest:
  assumes i: "i < length cand"
    and near: "\<forall>j < length cand. j \<noteq> i \<longrightarrow> distance x (cand ! i) < distance x (cand ! j)"
  shows "kd_query1 cand x = (Fin (distance x (cand ! i)), i)"
proof -
  let ?all = "map (\<lambda>i. (distance x (cand ! i), i)) [0..<length cand]"
  have flt_inf: "filter (\<lambda>(d, i). flt (Fin d) PInf) ?all = ?all"
    by (simp add: filter_id_conv case_prod_beta)
  have mem: "(distance x (cand ! i), i) \<in> set ?all" using i by auto
  have other: "\<forall>y \<in> set ?all. y \<noteq> (distance x (cand ! i), i) \<longrightarrow> fst (distance x (cand ! i), i) < fst y"
    using near by auto
  have hd: "hd (sort_key fst ?all) = (distance x (cand ! i), i)"
    by (rule hd_sort_key_unique_min[OF mem other])
  have ne: "sort_key fst ?all \<noteq> []" using i by (metis mem empty_iff list.set(1) set_sort)
  then have "take 1 (sort_key fst ?all) = [hd (sort_key fst ?all)]"
    by (cases "sort_key fst ?all") auto
  then show ?thesis
    unfolding kd_query1_def kd_query_def Let_def flt_inf using hd by simp
qed

lemma median_replicate:
  assumes "0 < n"
  shows "median (replicate n c) = c"
proof -
  have "sort (replicate n c) = replicate n c"
    by (rule sort_key_id_if_sorted) (simp add: sorted_replicate)
  moreover have "n div 2 < n" "n div 2 - 1 < n" using assms by auto
  ultimately show ?thesis by (simp add: median_def Let_def)
qed

lemma rematch_aligned:
  assumes len: "length m = length cand"
    and shift: "\<forall>i < length cand. m ! i = (fst (cand ! i) + tx, snd (cand ! i) + ty)"
    and q: "q = map (\<lambda>i. (d i, i)) [0..<length cand]"
    and dist: "\<forall>i < length cand. \<forall>j < length cand. j \<noteq> i \<longrightarrow> cand ! j \<noteq> cand ! i"
  shows "rematch cand (m, q) = Inr (cand, map (\<lambda>i. (Fin 0, i)) [0..<length cand])"
proof (cases "cand = []")
  case True
  then show ?thesis using len q by (simp add: rematch_def)
next
  case False
  let ?n = "length cand"
  have n: "0 < ?n" using False by simp
  have ok: "\<not> list_ex (\<lambda>e. snd e \<ge> length cand) q"
    unfolding q by (auto simp: list_ex_iff)
  have mne: "m \<noteq> []" using len False by auto
  have dx: "map (\<lambda>(m, e). fst m - fst (cand ! snd e)) (zip m q) = replicate ?n tx"
    using len shift unfolding q by (intro nth_equalityI) auto
  have dy: "map (\<lambda>(m, e). snd m - snd (cand ! snd e)) (zip m q) = replicate ?n ty"
    using len shift unfolding q by (intro nth_equalityI) auto
  have undo: "map (\<lambda>p. (fst p - tx, snd p - ty)) m = cand"
    using len shift by (intro nth_equalityI) auto
  have self: "map (kd_query1 cand) cand = map (\<lambda>i. (Fin 0, i)) [0..<?n]"
  proof (intro nth_equalityI)
    show "length (map (kd_query1 cand) cand) = length (map (\<lambda>i. (Fin 0, i)) [0..<?n])" by simp
  next
    fix i assume "i < length (map (kd_query1 cand) cand)"
    then have i: "i < ?n" by simp
    have "\<forall>j < ?n. j \<noteq> i \<longrightarrow> distance (cand ! i) (cand ! i) < distance (cand ! i) (cand ! j)"
    proof (intro allI impI)
      fix j assume "j < ?n" "j \<noteq> i"
      then have "cand ! i \<noteq> cand ! j" using dist i by metis
      then have "0 < sqdist (cand ! i) (cand ! j)" by (rule sqdist_pos)
      then show "distance (cand ! i) (cand ! i) < distance (cand ! i) (cand ! j)"
        by (simp add: distance_self) (simp add: distance_def)
    qed
    then have "kd_query1 cand (cand ! i) = (Fin (distance (cand ! i) (cand ! i)), i)"
      using kd_query1_nearest[OF i] by blast
    then show "map (kd_query1 cand) cand ! i = map (\<lambda>i. (Fin 0, i)) [0..<?n] ! i"
      using i by (simp add: distance_self)
  qed
  show ?thesis
    unfolding rematch_def Let_def prod.case dx dy median_replicate[OF n] undo self
    using ok mne by simp
qed

text \<open>
  Claim C3, as the code has it. When the fiducial centres are the candidates moved by one
  translation, and every centre is nearer to its own candidate than to any other (the
  translation is small against the spacing of the candidates), the first pass finds the
  translation as the median and removes it, the second finds the offset 0, and every centre
  is matched to its own candidate at distance 0, below \<open>1e-6\<close>.
\<close>

theorem matcher_exact_recovery:
  assumes len: "length metro = length cand"
    and shift: "\<forall>i < length cand. metro ! i = (fst (cand ! i) + tx, snd (cand ! i) + ty)"
    and own: "\<forall>i < length cand. \<forall>j < length cand. j \<noteq> i \<longrightarrow>
                distance (metro ! i) (cand ! i) < distance (metro ! i) (cand ! j)"
  shows "match_fiducials cand metro = Inr (map (\<lambda>i. (Fin 0, i)) [0..<length cand]) \<and>
         flt (Fin 0) (Fin 0.000001)"
proof -
  let ?n = "length cand"
  let ?q1 = "map (\<lambda>i. (Fin 0, i)) [0..<?n]"
  have dist: "\<forall>i < ?n. \<forall>j < ?n. j \<noteq> i \<longrightarrow> cand ! j \<noteq> cand ! i"
    using own by (metis less_irrefl)
  have q0: "map (kd_query1 cand) metro
            = map (\<lambda>i. (Fin (distance (metro ! i) (cand ! i)), i)) [0..<?n]"
  proof (intro nth_equalityI)
    show "length (map (kd_query1 cand) metro)
          = length (map (\<lambda>i. (Fin (distance (metro ! i) (cand ! i)), i)) [0..<?n])"
      using len by simp
  next
    fix i assume "i < length (map (kd_query1 cand) metro)"
    then have i: "i < ?n" using len by simp
    have "kd_query1 cand (metro ! i) = (Fin (distance (metro ! i) (cand ! i)), i)"
      using kd_query1_nearest[OF i, of "metro ! i"] own i by blast
    then show "map (kd_query1 cand) metro ! i
               = map (\<lambda>i. (Fin (distance (metro ! i) (cand ! i)), i)) [0..<?n] ! i"
      using i len by simp
  qed
  have r1: "rematch cand (metro, map (kd_query1 cand) metro) = Inr (cand, ?q1)"
    unfolding q0 by (rule rematch_aligned[OF len shift refl dist])
  have r2: "rematch cand (cand, ?q1) = Inr (cand, ?q1)"
    by (rule rematch_aligned[where tx = 0 and ty = 0, OF refl _ refl dist]) simp
  show ?thesis
    by (simp add: match_fiducials_def r1 r2)
qed

lemma all_less_2: "(\<forall>j<2. P j) \<longleftrightarrow> P 0 \<and> P (1::nat)"
  by (auto simp: less_2_cases_iff)

theorem matcher_exact_recovery_witness:
  "length near_metro = length near_cand \<and>
   near_metro ! 0 = (fst (near_cand ! 0) + 3, snd (near_cand ! 0) + 4) \<and>
   near_metro ! 1 = (fst (near_cand ! 1) + 3, snd (near_cand ! 1) + 4) \<and>
   distance (near_metro ! 0) (near_cand ! 0) < distance (near_metro ! 0) (near_cand ! 1) \<and>
   distance (near_metro ! 1) (near_cand ! 1) < distance (near_metro ! 1) (near_cand ! 0) \<and>
   match_fiducials near_cand near_metro = Inr [(Fin 0, 0), (Fin 0, 1)]"
proof -
  have h1: "length near_metro = length near_cand" by simp
  have h2: "\<forall>i < length near_cand.
              near_metro ! i = (fst (near_cand ! i) + 3, snd (near_cand ! i) + 4)"
    by (simp add: All_less_Suc)
  have h3: "\<forall>i < length near_cand. \<forall>j < length near_cand. j \<noteq> i \<longrightarrow>
              distance (near_metro ! i) (near_cand ! i) < distance (near_metro ! i) (near_cand ! j)"
    by (simp add: All_less_Suc distance_def sqdist_def)
  have "[0..<length near_cand] = [0, 1]" by (simp add: upt_rec)
  then have "match_fiducials near_cand near_metro = Inr [(Fin 0, 0), (Fin 0, 1)]"
    using matcher_exact_recovery[OF h1 h2 h3] by simp
  then show ?thesis using h2 h3 by (simp add: All_less_Suc)
qed

lemma upt_Suc3: "[0..<Suc (Suc (Suc 0))] = [0, 1, 2]" by (simp add: upt_rec)

lemma far_query0:
  "kd_query1 far_cand (0, 0) = (Fin 100, 0)"
  "kd_query1 far_cand (10, 0) = (Fin 90, 0)"
  "kd_query1 far_cand (20, 0) = (Fin 80, 0)"
  by (simp_all add: kd_query1_def kd_query_def upt_Suc3 distance_def sqdist_def Let_def)

lemma far_query1:
  "kd_query1 far_cand (90, 0) = (Fin 10, 0)"
  "kd_query1 far_cand (100, 0) = (Fin 0, 0)"
  "kd_query1 far_cand (110, 0) = (Fin 0, 1)"
  by (simp_all add: kd_query1_def kd_query_def upt_Suc3 distance_def sqdist_def Let_def)

lemma far_rematch1:
  "rematch far_cand (far_metro, [(Fin 100, 0), (Fin 90, 0), (Fin 80, 0)])
   = Inr ([(90, 0), (100, 0), (110, 0)], [(Fin 10, 0), (Fin 0, 0), (Fin 0, 1)])"
proof -
  have "median [- 100, - 90, - 80] = - 90" "median [0, 0, 0] = 0"
    by (simp_all add: median_def Let_def)
  then show ?thesis
    unfolding rematch_def by (simp add: far_query1 Let_def)
qed

lemma far_rematch2:
  "rematch far_cand ([(90, 0), (100, 0), (110, 0)], [(Fin 10, 0), (Fin 0, 0), (Fin 0, Suc 0)])
   = Inr ([(90, 0), (100, 0), (110, 0)], [(Fin 10, 0), (Fin 0, 0), (Fin 0, 1)])"
proof -
  have "median [- 10, 0, 0] = 0" "median [0, 0, 0] = 0"
    by (simp_all add: median_def Let_def)
  then show ?thesis
    unfolding rematch_def by (simp add: far_query1 Let_def)
qed

text \<open>
  Claim C3 as stated, for every translation, fails when the translation is large against
  the spacing: every centre is first matched to the same candidate, the median offset is
  wrong by one spacing, and the first centre stays at distance 10 from its match.
\<close>

theorem matcher_exact_recovery_counterexample:
  "far_metro ! 0 = (fst (far_cand ! 0) - 100, snd (far_cand ! 0)) \<and>
   far_metro ! 1 = (fst (far_cand ! 1) - 100, snd (far_cand ! 1)) \<and>
   far_metro ! 2 = (fst (far_cand ! 2) - 100, snd (far_cand ! 2)) \<and>
   match_fiducials far_cand far_metro = Inr [(Fin 10, 0), (Fin 0, 0), (Fin 0, 1)] \<and>
   \<not> flt (Fin 10) (Fin 0.000001)"
  by (simp add: match_fiducials_def far_query0 far_rematch1 far_rematch2)

section \<open>The steps of the pinhole assignment\<close>

lemma sum_sq_zero: "sqrt (a\<^sup>2 + b\<^sup>2) = 0 \<longleftrightarrow> a = 0 \<and> b = (0::real)"
  by (simp add: sum_power2_eq_zero_iff)

lemma cos12_cos_angle:
  "cos12_of (first_side xy1 k1) (first_side xy2 k2)
   = cos_angle (side_vector xy1 k1) (side_vector xy2 k2)"
proof -
  define a where "a = fst (side_vector xy1 k1)"
  define b where "b = snd (side_vector xy1 k1)"
  define c where "c = fst (side_vector xy2 k2)"
  define d where "d = snd (side_vector xy2 k2)"
  define n1 where "n1 = sqrt (a\<^sup>2 + b\<^sup>2)"
  define n2 where "n2 = sqrt (c\<^sup>2 + d\<^sup>2)"
  have l: "cos12_of (first_side xy1 k1) (first_side xy2 k2)
           = fadd (fmul (fdiv a n1) (fdiv c n2)) (fmul (fdiv b n1) (fdiv d n2))"
    by (simp add: cos12_of_def first_side_def side_vector_def Let_def a_def b_def c_def d_def
        n1_def n2_def)
  have r: "cos_angle (side_vector xy1 k1) (side_vector xy2 k2) = fdiv (a * c + b * d) (n1 * n2)"
    by (simp add: cos_angle_def a_def b_def c_def d_def n1_def n2_def)
  have z1: "n1 = 0 \<Longrightarrow> a = 0 \<and> b = 0" unfolding n1_def by (simp add: sum_sq_zero)
  have z2: "n2 = 0 \<Longrightarrow> c = 0 \<and> d = 0" unfolding n2_def by (simp add: sum_sq_zero)
  have "fadd (fmul (fdiv a n1) (fdiv c n2)) (fmul (fdiv b n1) (fdiv d n2))
        = fdiv (a * c + b * d) (n1 * n2)"
  proof (cases "n1 = 0")
    case True
    then show ?thesis using z1 by (simp add: fdiv_def)
  next
    case n1: False
    show ?thesis
    proof (cases "n2 = 0")
      case True
      then show ?thesis using z2 n1 by (simp add: fdiv_def)
    next
      case False
      then show ?thesis using n1 by (simp add: fdiv_def field_simps)
    qed
  qed
  then show ?thesis using l r by simp
qed

lemma features_nth:
  assumes "t < length (fst (compute_triangles xy))"
  shows "features xy ! t = (fst (snd (compute_triangles xy)) ! t,
                            snd (snd (compute_triangles xy)) ! t,
                            first_side xy (fst (compute_triangles xy) ! t))"
proof -
  obtain tk tr tc where c: "compute_triangles xy = (tk, tr, tc)"
    by (cases "compute_triangles xy") auto
  then show ?thesis using assms by (simp add: features_def)
qed

lemma dist2_matrix_nth:
  assumes "a < length (fst (compute_triangles xy1))" "b < length (fst (compute_triangles xy2))"
  shows "dist2_matrix xy1 xy2 ! a ! b
         = spec_dist2 (fst (snd (compute_triangles xy1)) ! a) (snd (snd (compute_triangles xy1)) ! a)
                      (side_vector xy1 (fst (compute_triangles xy1) ! a))
                      (fst (snd (compute_triangles xy2)) ! b) (snd (snd (compute_triangles xy2)) ! b)
                      (side_vector xy2 (fst (compute_triangles xy2) ! b))"
  using assms
  by (simp add: dist2_matrix_def length_features features_nth dist2_of_def spec_dist2_def
      cos12_cos_angle)

lemma flt_irrefl: "\<not> flt a a"
  by (cases a) auto

lemma flt_trans: "flt a b \<Longrightarrow> flt b c \<Longrightarrow> flt a c"
  by (cases a; cases b; cases c) auto

lemma flt_NaN_right: "\<not> flt a NaN"
  by (cases a) auto

lemma argmin_step_least:
  assumes prev: "\<forall>i < k. \<not> flt (xs ! i) (xs ! m)"
  shows "\<forall>i < Suc k. \<not> flt (xs ! i)
           (xs ! (if xs ! m \<noteq> NaN \<and> (xs ! k = NaN \<or> flt (xs ! k) (xs ! m)) then k else m))"
proof (intro allI impI)
  fix i assume i: "i < Suc k"
  show "\<not> flt (xs ! i)
           (xs ! (if xs ! m \<noteq> NaN \<and> (xs ! k = NaN \<or> flt (xs ! k) (xs ! m)) then k else m))"
  proof (cases "xs ! m \<noteq> NaN \<and> (xs ! k = NaN \<or> flt (xs ! k) (xs ! m))")
    case True
    have "\<not> flt (xs ! i) (xs ! k)"
    proof (cases "xs ! k = NaN")
      case True
      then show ?thesis using flt_NaN_right by simp
    next
      case False
      then have km: "flt (xs ! k) (xs ! m)" using True by blast
      show ?thesis
      proof (cases "i = k")
        case True
        then show ?thesis by (simp add: flt_irrefl)
      next
        case False
        then have "i < k" using i by simp
        then show ?thesis using prev km flt_trans by blast
      qed
    qed
    then show ?thesis unfolding if_P[OF True] .
  next
    case False
    have "\<not> flt (xs ! i) (xs ! m)"
    proof (cases "i = k")
      case True
      then show ?thesis using False flt_NaN_right[of "xs ! k"] by auto
    next
      case False
      then have "i < k" using i by simp
      then show ?thesis using prev by simp
    qed
    then show ?thesis unfolding if_not_P[OF False] .
  qed
qed

lemma argmin_fold_least:
  "\<forall>i < Suc n. \<not> flt (xs ! i)
     (xs ! fold (\<lambda>i b. if xs ! b \<noteq> NaN \<and> (xs ! i = NaN \<or> flt (xs ! i) (xs ! b)) then i else b)
              [1..<Suc n] 0)"
proof (induction n)
  case 0
  then show ?case by (simp add: flt_irrefl)
next
  case (Suc n)
  define f where "f = (\<lambda>i b. if xs ! b \<noteq> NaN \<and> (xs ! i = NaN \<or> flt (xs ! i) (xs ! b)) then i else b)"
  have app: "[1..<Suc (Suc n)] = [1..<Suc n] @ [Suc n]" by simp
  have "fold f [1..<Suc (Suc n)] 0 = f (Suc n) (fold f [1..<Suc n] 0)"
    unfolding app by (simp only: fold_append fold.simps o_apply id_apply)
  moreover have "\<forall>i < Suc (Suc n). \<not> flt (xs ! i) (xs ! f (Suc n) (fold f [1..<Suc n] 0))"
    unfolding f_def by (rule argmin_step_least) (use Suc.IH in \<open>simp add: f_def\<close>)
  ultimately show ?case unfolding f_def by simp
qed

lemma argmin_fl_least:
  assumes "b < length xs"
  shows "\<not> flt (xs ! b) (xs ! argmin_fl xs)"
proof -
  obtain n where n: "length xs = Suc n" using assms by (cases "length xs") auto
  show ?thesis
    using argmin_fold_least[of n xs] assms unfolding argmin_fl_def n by simp
qed

lemma argsort_fl_sorted: "sorted (map (\<lambda>p. sortkey (xs ! p)) (argsort_fl xs))"
  unfolding argsort_fl_def by (rule sorted_sort_key)

lemma set_fold_zip_update:
  "set (fold (\<lambda>(a, b) ids. ids[a := h b]) ks pin) \<subseteq> set pin \<union> h ` snd ` set ks"
proof (induction ks arbitrary: pin)
  case Nil
  then show ?case by simp
next
  case (Cons e ks)
  obtain a b where e: "e = (a, b)" by (cases e)
  have "set (pin[a := h b]) \<subseteq> insert (h b) (set pin)" by (rule set_update_subset_insert)
  then show ?case using Cons.IH[of "pin[a := h b]"] e by auto
qed

lemma assign_triangle_nonneg:
  assumes res: "assign_triangle pi1 location ids k1 k2 (pin, loc, pid) = (pin', loc', pid')"
    and pin: "\<forall>v \<in> set pin. 0 \<le> v"
    and k2: "\<forall>b \<in> set k2. b < length ids"
    and ids: "\<forall>v \<in> set ids. 0 < v"
  shows "\<forall>v \<in> set pin'. 0 \<le> v"
proof
  fix v assume "v \<in> set pin'"
  then have "v \<in> set pin \<union> (\<lambda>b. ids ! b) ` snd ` set (zip k1 k2)"
    using res set_fold_zip_update[of "\<lambda>b. ids ! b" "zip k1 k2" pin]
    by (auto simp: assign_triangle_def Let_def)
  then consider "v \<in> set pin" | b where "b \<in> set k2" "v = ids ! b"
    by (auto dest: set_zip_rightD)
  then show "0 \<le> v"
  proof cases
    case 1
    then show ?thesis using pin by simp
  next
    case 2
    then have "ids ! b \<in> set ids" using k2 by simp
    then show ?thesis using ids 2 by (metis less_imp_le)
  qed
qed

lemma all_positive_iff:
  assumes "length pin = n" "\<forall>v \<in> set pin. (0::int) \<le> v"
  shows "length (filter (\<lambda>v. v > 0) pin) = n \<longleftrightarrow> list_all (\<lambda>v. v \<noteq> 0) pin"
proof -
  have "length (filter (\<lambda>v. v > 0) pin) = length pin \<longleftrightarrow> (\<forall>v \<in> set pin. v > 0)"
    by (metis filter_id_conv length_filter_less less_irrefl)
  moreover have "(\<forall>v \<in> set pin. v > 0) \<longleftrightarrow> (\<forall>v \<in> set pin. v \<noteq> 0)"
    using assms(2) by (metis less_le)
  ultimately show ?thesis using assms(1) by (simp add: list_all_iff)
qed

lemma assign_loop_is_spec:
  assumes len: "length (fst st) = length pi1"
    and nonneg: "\<forall>v \<in> set (fst st). 0 \<le> v"
    and k2: "\<forall>p \<in> set ps. \<forall>b \<in> set (tk2 ! (matched ! p)). b < length ids"
    and ids: "\<forall>v \<in> set ids. 0 < v"
  shows "assign_loop pi1 location ids tk1 tc1 tk2 matched dist2 ps st
         = spec_accept pi1 location ids tk1 tk2 matched (spec_processed tc1 dist2 ps) st"
  using len nonneg k2
proof (induction ps arbitrary: st)
  case Nil
  then show ?case by (simp add: spec_processed_def)
next
  case (Cons p ps)
  have k2': "\<forall>p \<in> set ps. \<forall>b \<in> set (tk2 ! (matched ! p)). b < length ids"
    using Cons.prems(3) by simp
  show ?case
  proof (cases "fgt (tc1 ! p) (Fin 0.9)")
    case True
    then show ?thesis
      using Cons.IH[OF Cons.prems(1,2) k2'] by (simp add: spec_processed_def)
  next
    case flat: False
    show ?thesis
    proof (cases "fgt (dist2 ! p) (Fin 0.001)")
      case True
      then show ?thesis using flat by (simp add: spec_processed_def)
    next
      case False
      obtain pin loc pid where st: "st = (pin, loc, pid)" by (cases st)
      obtain pin' loc' pid' where
        res: "assign_triangle pi1 location ids (tk1 ! p) (tk2 ! (matched ! p)) (pin, loc, pid)
              = (pin', loc', pid')"
        by (cases "assign_triangle pi1 location ids (tk1 ! p) (tk2 ! (matched ! p)) (pin, loc, pid)")
      have len': "length pin' = length pi1"
        using assign_triangle_lengths(1)[OF res] Cons.prems(1) st by simp
      have nn': "\<forall>v \<in> set pin'. 0 \<le> v"
        using assign_triangle_nonneg[OF res] Cons.prems(2,3) ids st by simp
      have test: "length (filter (\<lambda>v. v > 0) pin') = length pi1 \<longleftrightarrow> list_all (\<lambda>v. v \<noteq> 0) pin'"
        by (rule all_positive_iff[OF len' nn'])
      have tail: "assign_loop pi1 location ids tk1 tc1 tk2 matched dist2 ps (pin', loc', pid')
         = spec_accept pi1 location ids tk1 tk2 matched (spec_processed tc1 dist2 ps)
             (pin', loc', pid')"
        using Cons.IH[of "(pin', loc', pid')"] len' nn' k2' by simp
      have proc: "spec_processed tc1 dist2 (p # ps) = p # spec_processed tc1 dist2 ps"
        using flat False by (simp add: spec_processed_def)
      show ?thesis
        unfolding proc using flat False res st test tail by (simp add: Let_def)
    qed
  qed
qed

lemma takeWhile_filter_commute:
  assumes "sorted_wrt (\<lambda>x y. \<not> W x \<longrightarrow> \<not> W y) xs"
  shows "takeWhile W (filter Q xs) = filter Q (takeWhile W xs)"
  using assms
proof (induction xs)
  case Nil
  then show ?case by simp
next
  case (Cons x xs)
  show ?case
  proof (cases "W x")
    case True
    then show ?thesis using Cons by simp
  next
    case False
    then have "\<forall>y \<in> set xs. \<not> W y" using Cons.prems by simp
    then have "\<forall>y \<in> set (filter Q xs). \<not> W y" by simp
    then have "takeWhile W (filter Q xs) = []"
      by (cases "filter Q xs") auto
    then show ?thesis using False by simp
  qed
qed

lemma sortkey_far:
  assumes "sortkey a \<le> sortkey b" "b \<noteq> NaN" "flt (Fin c) a"
  shows "flt (Fin c) b"
  using assms by (cases a; cases b) (auto simp: less_eq_prod_def)

lemma spec_processed_sorted:
  assumes srt: "sorted (map (\<lambda>p. sortkey (dist2 ! p)) ranked)"
    and fin: "\<forall>p \<in> set ranked. dist2 ! p \<noteq> NaN"
  shows "spec_processed tc1 dist2 ranked
         = filter (\<lambda>p. \<not> fgt (tc1 ! p) (Fin 0.9))
                  (takeWhile (\<lambda>p. \<not> fgt (dist2 ! p) (Fin 0.001)) ranked)"
proof -
  have "sorted_wrt (\<lambda>p q. sortkey (dist2 ! p) \<le> sortkey (dist2 ! q)) ranked"
    using srt by (simp add: sorted_map)
  then have "sorted_wrt (\<lambda>p q. \<not> \<not> fgt (dist2 ! p) (Fin 0.001) \<longrightarrow> \<not> \<not> fgt (dist2 ! q) (Fin 0.001))
               ranked"
  proof (rule sorted_wrt_mono_rel[rotated])
    fix p q assume "p \<in> set ranked" "q \<in> set ranked"
      "sortkey (dist2 ! p) \<le> sortkey (dist2 ! q)"
    then show "\<not> \<not> fgt (dist2 ! p) (Fin 0.001) \<longrightarrow> \<not> \<not> fgt (dist2 ! q) (Fin 0.001)"
      using fin sortkey_far[of "dist2 ! p" "dist2 ! q"] by (auto simp: fgt_def)
  qed
  then show ?thesis
    unfolding spec_processed_def by (rule takeWhile_filter_commute)
qed

lemma fold_zip_update_other:
  "a \<notin> fst ` set ks \<Longrightarrow> fold (\<lambda>(a, b) ids. ids[a := h b]) ks q ! a = q ! a"
  by (induction ks arbitrary: q) auto

lemma fold_zip_update_nth:
  assumes "length k1 = length k2" "distinct k1" "v < length k1" "k1 ! v < length pin"
  shows "fold (\<lambda>(a, b) ids. ids[a := h b]) (zip k1 k2) pin ! (k1 ! v) = h (k2 ! v)"
  using assms
proof (induction k1 k2 arbitrary: pin v rule: list_induct2)
  case Nil
  then show ?case by simp
next
  case (Cons a k1 b k2)
  show ?case
  proof (cases v)
    case 0
    have "a \<notin> fst ` set (zip k1 k2)" using Cons.prems(1) by (auto dest: set_zip_leftD)
    then have "fold (\<lambda>(a, b) ids. ids[a := h b]) (zip k1 k2) (pin[a := h b]) ! a
               = pin[a := h b] ! a"
      by (rule fold_zip_update_other)
    then show ?thesis using 0 Cons.prems(3) by simp
  next
    case (Suc w)
    then show ?thesis using Cons.IH[of w "pin[a := h b]"] Cons.prems by simp
  qed
qed

lemma fold_update_fun_nth:
  assumes "inj_on f (set k)" "a \<in> set k" "f a < length col"
  shows "fold (\<lambda>a col. col[f a := g a]) k col ! f a = g a"
  using assms
proof (induction k arbitrary: col)
  case Nil
  then show ?case by simp
next
  case (Cons x k)
  show ?case
  proof (cases "a \<in> set k")
    case True
    then show ?thesis using Cons.IH[of "col[f x := g x]"] Cons.prems by (simp add: inj_on_def)
  next
    case False
    then have ax: "a = x" using Cons.prems(2) by simp
    have "f a \<notin> f ` set k" using False Cons.prems(1) ax by (auto simp: inj_on_def)
    then have "fold (\<lambda>a col. col[f a := g a]) k (col[f x := g x]) ! f a = col[f x := g x] ! f a"
      using fold_update_fun[of "f a" f k "col[f x := g x]" g] by blast
    then show ?thesis using ax Cons.prems(3) by simp
  qed
qed

lemma assign_triangle_vertex:
  assumes res: "assign_triangle pi1 location ids k1 k2 (pin, loc, pid) = (pin', loc', pid')"
    and k1: "distinct k1" "length k1 = length k2" "\<forall>a \<in> set k1. a < length pi1"
    and pin: "length pin = length pi1"
    and pi1: "distinct pi1" "\<forall>i \<in> set pi1. i < length loc \<and> i < length pid"
    and v: "v < length k1"
  shows "pin' ! (k1 ! v) = ids ! (k2 ! v)"
    and "loc' ! (pi1 ! (k1 ! v)) = location"
    and "pid' ! (pi1 ! (k1 ! v)) = ids ! (k2 ! v)"
proof -
  have kv: "k1 ! v \<in> set k1" using v by simp
  then have kv_lt: "k1 ! v < length pi1" using k1(3) by blast
  then have spot: "pi1 ! (k1 ! v) \<in> set pi1" by simp
  have pin'_eq: "pin' = fold (\<lambda>(a, b) ids'. ids'[a := ids ! b]) (zip k1 k2) pin"
    and pid'_eq: "pid' = fold (\<lambda>a col. col[pi1 ! a := pin' ! a]) k1 pid"
    using res by (auto simp: assign_triangle_def Let_def)
  show a: "pin' ! (k1 ! v) = ids ! (k2 ! v)"
    unfolding pin'_eq using k1 v kv_lt pin
    by (intro fold_zip_update_nth) simp_all
  show "loc' ! (pi1 ! (k1 ! v)) = location"
    using assign_triangle_loc[OF res, of "pi1 ! (k1 ! v)"] kv spot pi1(2) by auto
  have inj: "inj_on (\<lambda>a. pi1 ! a) (set k1)"
    using pi1(1) k1(3) by (auto simp: inj_on_def nth_eq_iff_index_eq)
  have "pid' ! (pi1 ! (k1 ! v)) = pin' ! (k1 ! v)"
    unfolding pid'_eq using inj kv spot pi1(2)
    by (intro fold_update_fun_nth[where f = "\<lambda>a. pi1 ! a" and g = "\<lambda>a. pin' ! a"]) auto
  then show "pid' ! (pi1 ! (k1 ! v)) = ids ! (k2 ! v)" using a by simp
qed

lemma assign_cluster_is_spec:
  assumes pi2: "pi2 = filter (\<lambda>i. m_LOCATION (pinholes ! i) = location) [0..<length pinholes]"
    and xy1: "xy1 = map (\<lambda>i. xy ! i) pi1"
    and xy2: "xy2 = map (\<lambda>i. m_PIX (pinholes ! i)) pi2"
    and d: "d = dist2_matrix xy1 xy2"
    and ne: "fst (compute_triangles xy1) \<noteq> []" "fst (compute_triangles xy2) \<noteq> []"
    and pos: "\<forall>r \<in> set pinholes. 0 < m_PINHOLE_ID r"
  shows "assign_cluster xy pinholes pi1 location (loc, pid)
         = Inr (snd (spec_accept pi1 location (map (\<lambda>i. m_PINHOLE_ID (pinholes ! i)) pi2)
                       (fst (compute_triangles xy1)) (fst (compute_triangles xy2))
                       (map argmin_fl d)
                       (spec_processed (snd (snd (compute_triangles xy1)))
                          (map (\<lambda>row. row ! argmin_fl row) d)
                          (argsort_fl (map (\<lambda>row. row ! argmin_fl row) d)))
                       (replicate (length pi1) 0, loc, pid)))"
proof -
  let ?ids = "map (\<lambda>i. m_PINHOLE_ID (pinholes ! i)) pi2"
  let ?tk1 = "fst (compute_triangles xy1)" and ?tk2 = "fst (compute_triangles xy2)"
  let ?dist2 = "map (\<lambda>row. row ! argmin_fl row) d"
  have len_d: "length d = length ?tk1" by (simp add: d length_dist2_matrix)
  have ids_pos: "\<forall>v \<in> set ?ids. 0 < v"
  proof
    fix v assume "v \<in> set ?ids"
    then obtain i where "i \<in> set pi2" "v = m_PINHOLE_ID (pinholes ! i)" by auto
    then have "i < length pinholes" by (simp add: pi2)
    then show "0 < v" using pos \<open>v = _\<close> by simp
  qed
  have k2: "\<forall>p \<in> set (argsort_fl ?dist2). \<forall>b \<in> set (?tk2 ! (map argmin_fl d ! p)). b < length ?ids"
  proof (intro ballI)
    fix p b assume p: "p \<in> set (argsort_fl ?dist2)" and b: "b \<in> set (?tk2 ! (map argmin_fl d ! p))"
    have p_lt: "p < length ?tk1" using p by (simp add: set_argsort_fl len_d)
    then have "d ! p \<in> set d" using len_d by simp
    then have "length (d ! p) = length ?tk2" unfolding d by (rule length_dist2_row)
    moreover from this have "d ! p \<noteq> []" using ne(2) by auto
    ultimately have "argmin_fl (d ! p) < length ?tk2" using argmin_fl_less[of "d ! p"] by simp
    then have "?tk2 ! (map argmin_fl d ! p) \<in> set ?tk2" using p_lt len_d by simp
    then have "\<forall>a \<in> set (?tk2 ! (map argmin_fl d ! p)). a < length xy2"
      using compute_triangles_indices by blast
    then show "b < length ?ids" using b by (simp add: xy2)
  qed
  have "assign_loop pi1 location ?ids ?tk1 (snd (snd (compute_triangles xy1))) ?tk2
          (map argmin_fl d) ?dist2 (argsort_fl ?dist2) (replicate (length pi1) 0, loc, pid)
        = spec_accept pi1 location ?ids ?tk1 ?tk2 (map argmin_fl d)
            (spec_processed (snd (snd (compute_triangles xy1))) ?dist2 (argsort_fl ?dist2))
            (replicate (length pi1) 0, loc, pid)"
    by (rule assign_loop_is_spec[OF _ _ k2 ids_pos]) simp_all
  moreover have "length xy1 = length pi1" by (simp add: xy1)
  ultimately show ?thesis
    using ne unfolding assign_cluster_def Let_def pi2[symmetric] xy1[symmetric] xy2[symmetric]
      d[symmetric]
    by simp
qed

text \<open>
  Claim C2. For a cluster \<open>pi1\<close> and the fiducial at \<open>location\<close>, with the arrays as the
  source computes them: every entry of \<open>dist2\<close> is the squared matching distance of the
  specification; \<open>matched\<close> gives for each measured triangle a metrology triangle than
  which none is nearer; \<open>ranked_pairs\<close> lists the measured triangles in ascending order of
  that least distance; the loop accepts, in that order, the triangles that are left when
  flat ones (\<open>c > 0.9\<close>) are skipped, up to the first whose distance exceeds \<open>1e-3\<close>, and
  ends early once every spot of the cluster has a nonzero id; when no distance is
  not-a-number it makes no difference whether the flat triangles are skipped before or
  after the cut; and an accepted triangle gives its three points, in canonical order, the
  location and the ids of the three vertices of its metrology triangle.
\<close>

theorem pinhole_assigner_steps:
  assumes pi2: "pi2 = filter (\<lambda>i. m_LOCATION (pinholes ! i) = location) [0..<length pinholes]"
    and xy1: "xy1 = map (\<lambda>i. xy ! i) pi1"
    and xy2: "xy2 = map (\<lambda>i. m_PIX (pinholes ! i)) pi2"
    and t1: "compute_triangles xy1 = (tk1, tr1, tc1)"
    and t2: "compute_triangles xy2 = (tk2, tr2, tc2)"
    and d: "d = dist2_matrix xy1 xy2"
    and matched: "matched = map argmin_fl d"
    and dist2: "dist2 = map (\<lambda>row. row ! argmin_fl row) d"
    and ranked: "ranked = argsort_fl dist2"
    and ids: "ids = map (\<lambda>i. m_PINHOLE_ID (pinholes ! i)) pi2"
  shows
   "(\<forall>a < length tk1. \<forall>b < length tk2.
        d ! a ! b = spec_dist2 (tr1 ! a) (tc1 ! a) (side_vector xy1 (tk1 ! a))
                               (tr2 ! b) (tc2 ! b) (side_vector xy2 (tk2 ! b))) \<and>
    (\<forall>a < length tk1. \<forall>b < length tk2.
        matched ! a < length tk2 \<and> dist2 ! a = d ! a ! (matched ! a) \<and>
        \<not> flt (d ! a ! b) (dist2 ! a)) \<and>
    (set ranked = {0..<length tk1} \<and> distinct ranked \<and>
     sorted (map (\<lambda>p. sortkey (dist2 ! p)) ranked)) \<and>
    (tk1 \<noteq> [] \<and> tk2 \<noteq> [] \<and> (\<forall>r \<in> set pinholes. 0 < m_PINHOLE_ID r) \<longrightarrow>
       assign_cluster xy pinholes pi1 location (loc, pid)
       = Inr (snd (spec_accept pi1 location ids tk1 tk2 matched
                     (spec_processed tc1 dist2 ranked) (replicate (length pi1) 0, loc, pid)))) \<and>
    ((\<forall>p < length dist2. dist2 ! p \<noteq> NaN) \<longrightarrow>
       spec_processed tc1 dist2 ranked
       = filter (\<lambda>p. \<not> fgt (tc1 ! p) (Fin 0.9))
                (takeWhile (\<lambda>p. \<not> fgt (dist2 ! p) (Fin 0.001)) ranked)) \<and>
    (\<forall>p < length tk1. \<forall>v < 3.
       tk2 \<noteq> [] \<and> distinct pi1 \<and> (\<forall>i \<in> set pi1. i < length loc \<and> i < length pid) \<and>
       length pin = length pi1 \<longrightarrow>
       (case assign_triangle pi1 location ids (tk1 ! p) (tk2 ! (matched ! p)) (pin, loc, pid) of
          (pin', loc', pid') \<Rightarrow>
            pin' ! (tk1 ! p ! v) = ids ! (tk2 ! (matched ! p) ! v) \<and>
            loc' ! (pi1 ! (tk1 ! p ! v)) = location \<and>
            pid' ! (pi1 ! (tk1 ! p ! v)) = ids ! (tk2 ! (matched ! p) ! v)))"
proof -
  have tk1: "tk1 = fst (compute_triangles xy1)" and tr1: "tr1 = fst (snd (compute_triangles xy1))"
    and tc1: "tc1 = snd (snd (compute_triangles xy1))" using t1 by simp_all
  have tk2: "tk2 = fst (compute_triangles xy2)" and tr2: "tr2 = fst (snd (compute_triangles xy2))"
    and tc2: "tc2 = snd (snd (compute_triangles xy2))" using t2 by simp_all
  have len_d: "length d = length tk1" by (simp add: d tk1 length_dist2_matrix)
  have len_row: "length (d ! a) = length tk2" if "a < length tk1" for a
  proof -
    have "d ! a \<in> set d" using that len_d by simp
    then show ?thesis unfolding d tk2 by (rule length_dist2_row)
  qed
  have m_lt: "matched ! a < length tk2" if "a < length tk1" "tk2 \<noteq> []" for a
  proof -
    have "d ! a \<noteq> []" using len_row[OF that(1)] that(2) by auto
    then show ?thesis using argmin_fl_less[of "d ! a"] len_row[OF that(1)] that(1) len_d
      by (simp add: matched)
  qed
  have p1: "\<forall>a < length tk1. \<forall>b < length tk2.
        d ! a ! b = spec_dist2 (tr1 ! a) (tc1 ! a) (side_vector xy1 (tk1 ! a))
                               (tr2 ! b) (tc2 ! b) (side_vector xy2 (tk2 ! b))"
    unfolding d tk1 tr1 tc1 tk2 tr2 tc2 by (simp add: dist2_matrix_nth)
  have p2: "\<forall>a < length tk1. \<forall>b < length tk2.
        matched ! a < length tk2 \<and> dist2 ! a = d ! a ! (matched ! a) \<and>
        \<not> flt (d ! a ! b) (dist2 ! a)"
  proof (intro allI impI)
    fix a b assume a: "a < length tk1" and b: "b < length tk2"
    then have ne: "tk2 \<noteq> []" by auto
    have "dist2 ! a = d ! a ! (matched ! a)" using a len_d by (simp add: dist2 matched)
    moreover have "\<not> flt (d ! a ! b) (d ! a ! argmin_fl (d ! a))"
      using argmin_fl_least[of b "d ! a"] b len_row[OF a] by simp
    ultimately show "matched ! a < length tk2 \<and> dist2 ! a = d ! a ! (matched ! a) \<and>
        \<not> flt (d ! a ! b) (dist2 ! a)"
      using m_lt[OF a ne] a len_d by (simp add: matched)
  qed
  have len_dist2: "length dist2 = length tk1" by (simp add: dist2 len_d)
  have p3: "set ranked = {0..<length tk1} \<and> distinct ranked \<and>
     sorted (map (\<lambda>p. sortkey (dist2 ! p)) ranked)"
    unfolding ranked by (simp add: set_argsort_fl distinct_argsort_fl argsort_fl_sorted len_dist2)
  have p4: "assign_cluster xy pinholes pi1 location (loc, pid)
       = Inr (snd (spec_accept pi1 location ids tk1 tk2 matched
                     (spec_processed tc1 dist2 ranked) (replicate (length pi1) 0, loc, pid)))"
    if "tk1 \<noteq> [] \<and> tk2 \<noteq> [] \<and> (\<forall>r \<in> set pinholes. 0 < m_PINHOLE_ID r)"
    using that assign_cluster_is_spec[OF pi2 xy1 xy2 d, of loc pid]
    unfolding ids tk1 tk2 tc1 matched dist2 ranked by simp
  have p5: "spec_processed tc1 dist2 ranked
       = filter (\<lambda>p. \<not> fgt (tc1 ! p) (Fin 0.9))
                (takeWhile (\<lambda>p. \<not> fgt (dist2 ! p) (Fin 0.001)) ranked)"
    if "\<forall>p < length dist2. dist2 ! p \<noteq> NaN"
  proof (rule spec_processed_sorted)
    show "sorted (map (\<lambda>p. sortkey (dist2 ! p)) ranked)" using p3 by simp
    show "\<forall>p \<in> set ranked. dist2 ! p \<noteq> NaN" using that p3 len_dist2 by simp
  qed
  have p6: "case assign_triangle pi1 location ids (tk1 ! p) (tk2 ! (matched ! p)) (pin, loc, pid) of
          (pin', loc', pid') \<Rightarrow>
            pin' ! (tk1 ! p ! v) = ids ! (tk2 ! (matched ! p) ! v) \<and>
            loc' ! (pi1 ! (tk1 ! p ! v)) = location \<and>
            pid' ! (pi1 ! (tk1 ! p ! v)) = ids ! (tk2 ! (matched ! p) ! v)"
    if p: "p < length tk1" and v: "v < 3"
      and h: "tk2 \<noteq> [] \<and> distinct pi1 \<and> (\<forall>i \<in> set pi1. i < length loc \<and> i < length pid) \<and>
              length pin = length pi1" for p v
  proof -
    obtain pin' loc' pid' where
      res: "assign_triangle pi1 location ids (tk1 ! p) (tk2 ! (matched ! p)) (pin, loc, pid)
            = (pin', loc', pid')"
      by (cases "assign_triangle pi1 location ids (tk1 ! p) (tk2 ! (matched ! p)) (pin, loc, pid)")
    have "tk1 ! p \<in> set (fst (compute_triangles xy1))" using p by (simp add: tk1)
    then have k1: "length (tk1 ! p) = 3" "distinct (tk1 ! p)" "\<forall>a \<in> set (tk1 ! p). a < length pi1"
      using compute_triangles_indices[of "tk1 ! p" xy1] by (simp_all add: xy1)
    have "tk2 ! (matched ! p) \<in> set (fst (compute_triangles xy2))"
      using m_lt[OF p] h by (simp add: tk2)
    then have k2: "length (tk2 ! (matched ! p)) = 3"
      using compute_triangles_indices[of "tk2 ! (matched ! p)" xy2] by simp
    show ?thesis
      using assign_triangle_vertex[OF res k1(2) _ k1(3), of v] k1(1) k2 h v res by simp
  qed
  have p4': "tk1 \<noteq> [] \<and> tk2 \<noteq> [] \<and> (\<forall>r \<in> set pinholes. 0 < m_PINHOLE_ID r) \<longrightarrow>
       assign_cluster xy pinholes pi1 location (loc, pid)
       = Inr (snd (spec_accept pi1 location ids tk1 tk2 matched
                     (spec_processed tc1 dist2 ranked) (replicate (length pi1) 0, loc, pid)))"
    by (intro impI) (rule p4)
  have p5': "(\<forall>p < length dist2. dist2 ! p \<noteq> NaN) \<longrightarrow>
       spec_processed tc1 dist2 ranked
       = filter (\<lambda>p. \<not> fgt (tc1 ! p) (Fin 0.9))
                (takeWhile (\<lambda>p. \<not> fgt (dist2 ! p) (Fin 0.001)) ranked)"
    by (intro impI) (rule p5)
  have p6': "\<forall>p < length tk1. \<forall>v < 3.
       tk2 \<noteq> [] \<and> distinct pi1 \<and> (\<forall>i \<in> set pi1. i < length loc \<and> i < length pid) \<and>
       length pin = length pi1 \<longrightarrow>
       (case assign_triangle pi1 location ids (tk1 ! p) (tk2 ! (matched ! p)) (pin, loc, pid) of
          (pin', loc', pid') \<Rightarrow>
            pin' ! (tk1 ! p ! v) = ids ! (tk2 ! (matched ! p) ! v) \<and>
            loc' ! (pi1 ! (tk1 ! p ! v)) = location \<and>
            pid' ! (pi1 ! (tk1 ! p ! v)) = ids ! (tk2 ! (matched ! p) ! v))"
    by (intro allI impI) (rule p6)
  show ?thesis
    by (rule conjI[OF p1 conjI[OF p2 conjI[OF p3 conjI[OF p4' conjI[OF p5' p6']]]]])
qed

theorem pinhole_assigner_steps_witness:
  "compute_triangles square_spots = (square_tk, square_tr, square_tc) \<and>
   compute_triangles unit_square = (square_tk, square_tr, square_tc) \<and>
   map argmin_fl (dist2_matrix square_spots unit_square) = [0, 0, 2, 0] \<and>
   map (\<lambda>row. row ! argmin_fl row) (dist2_matrix square_spots unit_square)
     = [Fin 0, Fin 0, Fin 0, Fin 0] \<and>
   argsort_fl [Fin 0, Fin 0, Fin 0, Fin 0] = [0, 1, 2, 3] \<and>
   assign_cluster square_spots (square_pinholes 1) [0, 1, 2, 3] 1 ([0, 0, 0, 0], [0, 0, 0, 0])
   = Inr (snd (spec_accept [0, 1, 2, 3] 1 [4, 1, 2, 3] square_tk square_tk [0, 0, 2, 0]
                 (spec_processed square_tc [Fin 0, Fin 0, Fin 0, Fin 0] [0, 1, 2, 3])
                 ([0, 0, 0, 0], [0, 0, 0, 0], [0, 0, 0, 0])))"
proof -
  have h1: "[0, 1, 2, 3] = filter (\<lambda>i. m_LOCATION (square_pinholes 1 ! i) = 1)
                             [0..<length (square_pinholes 1)]"
    by (simp add: upt_Suc4)
  have h2: "square_spots = map (\<lambda>i. square_spots ! i) [0, 1, 2, 3]" by simp
  have h3: "unit_square = map (\<lambda>i. m_PIX (square_pinholes 1 ! i)) [0, 1, 2, 3]" by simp
  have h4: "compute_triangles square_spots = (square_tk, square_tr, square_tc)"
    by (simp only: square_spots_triangles square_triangles)
  have h5: "compute_triangles unit_square = (square_tk, square_tr, square_tc)"
    by (rule square_triangles)
  have h7: "[0, 0, 2, 0] = map argmin_fl (dist2_matrix square_spots unit_square)"
    by (simp add: square_dist2 argmin_fl_def upt_Suc_1_4)
  have h8: "[Fin 0, Fin 0, Fin 0, Fin 0]
            = map (\<lambda>row. row ! argmin_fl row) (dist2_matrix square_spots unit_square)"
    by (simp add: square_dist2 argmin_fl_def upt_Suc_1_4)
  have h9: "[0, 1, 2, 3] = argsort_fl [Fin 0, Fin 0, Fin 0, Fin 0]"
    by (simp add: square_ranked)
  have h10: "[4, 1, 2, 3] = map (\<lambda>i. m_PINHOLE_ID (square_pinholes 1 ! i)) [0, 1, 2, 3]"
    by simp
  have pos: "square_tk \<noteq> [] \<and> square_tk \<noteq> [] \<and> (\<forall>r \<in> set (square_pinholes 1). 0 < m_PINHOLE_ID r)"
    by simp
  from pinhole_assigner_steps[OF h1 h2 h3 h4 h5 refl h7 h8 h9 h10,
        of "[0, 0, 0, 0]" "[0, 0, 0, 0]" "[0, 0, 0, 0]"]
  have "assign_cluster square_spots (square_pinholes 1) [0, 1, 2, 3] 1 ([0, 0, 0, 0], [0, 0, 0, 0])
   = Inr (snd (spec_accept [0, 1, 2, 3] 1 [4, 1, 2, 3] square_tk square_tk [0, 0, 2, 0]
                 (spec_processed square_tc [Fin 0, Fin 0, Fin 0, Fin 0] [0, 1, 2, 3])
                 (replicate (length [0, 1, 2, 3 :: nat]) 0, [0, 0, 0, 0], [0, 0, 0, 0])))"
    using pos by blast
  then show ?thesis using h4 h5 h7[symmetric] h8[symmetric] h9[symmetric] by simp
qed

end
